theory Spec2Isabelle
  imports Complex_Main "HOL-Library.Sublist" "HOL-Library.AList" "HOL-Library.Multiset"
begin

section \<open>Strings\<close>

text \<open>
  A JavaScript string is a sequence of UTF-16 code units. The model covers the code
  units below 256 (Latin-1), one \<^typ>\<open>char\<close> each; on these the library functions the
  program calls are as defined here.
\<close>

definition isWhiteSpace :: "char \<Rightarrow> bool" where
  \<comment> \<open>the characters of \<^verbatim>\<open>\s\<close> and of \<^verbatim>\<open>trim\<close>: TAB, LF, VT, FF, CR, SP, NBSP\<close>
  "isWhiteSpace c = (c \<in> set [CHR 0x09, CHR 0x0A, CHR 0x0B, CHR 0x0C, CHR 0x0D, CHR 0x20, CHR 0xA0])"

definition trim :: "string \<Rightarrow> string" where
  "trim s = rev (dropWhile isWhiteSpace (rev (dropWhile isWhiteSpace s)))"

definition lowerChar :: "char \<Rightarrow> char" where
  "lowerChar c =
     (let n = (of_char c :: int)
      in if (65 \<le> n \<and> n \<le> 90) \<or> (192 \<le> n \<and> n \<le> 222 \<and> n \<noteq> 215)
         then char_of (n + 32) else c)"

definition toLowerCase :: "string \<Rightarrow> string" where
  "toLowerCase s = map lowerChar s"

fun str_includes :: "string \<Rightarrow> string \<Rightarrow> bool" where
  \<comment> \<open>\<^verbatim>\<open>s.includes(q)\<close>: q occurs at some position of s\<close>
  "str_includes [] q = (q = [])"
| "str_includes (c # cs) q = (prefix q (c # cs) \<or> str_includes cs q)"

fun indexOf :: "string \<Rightarrow> char \<Rightarrow> int" where
  "indexOf [] c = - 1"
| "indexOf (x # xs) c =
     (if x = c then 0 else (let i = indexOf xs c in if i = - 1 then - 1 else i + 1))"

definition lastIndexOf :: "string \<Rightarrow> char \<Rightarrow> int" where
  "lastIndexOf s c =
     (let i = indexOf (rev s) c in if i = - 1 then - 1 else int (length s) - 1 - i)"

definition substring :: "string \<Rightarrow> int \<Rightarrow> int \<Rightarrow> string" where
  \<comment> \<open>both indices are clamped to the string and swapped when out of order\<close>
  "substring s a b =
     (let n = int (length s);
          a' = min (max a 0) n;
          b' = min (max b 0) n;
          lo = min a' b';
          hi = max a' b'
      in take (nat (hi - lo)) (drop (nat lo) s))"

section \<open>Arrays and records of the runtime\<close>

text \<open>
  \<^verbatim>\<open>Array.prototype.sort\<close> with a comparator is a stable sort: elements the comparator
  does not separate keep their order. Where the comparator is not consistent the
  language leaves the order to the implementation; the function below then gives one
  of the permutations.
\<close>

fun insertBy :: "('a \<Rightarrow> 'a \<Rightarrow> int) \<Rightarrow> 'a \<Rightarrow> 'a list \<Rightarrow> 'a list" where
  "insertBy cmp x [] = [x]"
| "insertBy cmp x (y # ys) = (if cmp x y \<le> 0 then x # y # ys else y # insertBy cmp x ys)"

definition Array_sort :: "('a \<Rightarrow> 'a \<Rightarrow> int) \<Rightarrow> 'a list \<Rightarrow> 'a list" where
  "Array_sort cmp xs = foldr (insertBy cmp) xs []"

text \<open>
  The own properties of an object are an association list in the order its keys were
  created. \<^verbatim>\<open>Object.entries\<close> lists the keys that are array indices first, in
  ascending numeric order, then the other keys in creation order.
\<close>

definition isDigit :: "char \<Rightarrow> bool" where
  "isDigit c = (48 \<le> (of_char c :: int) \<and> (of_char c :: int) \<le> 57)"

definition indexValue :: "string \<Rightarrow> int" where
  "indexValue s = foldl (\<lambda>n c. 10 * n + (of_char c - 48)) 0 s"

definition isArrayIndex :: "string \<Rightarrow> bool" where
  "isArrayIndex s =
     (s \<noteq> [] \<and> list_all isDigit s \<and> (s = ''0'' \<or> hd s \<noteq> CHR ''0'') \<and>
      indexValue s < 4294967295)"

definition Object_entries :: "(string \<times> 'v) list \<Rightarrow> (string \<times> 'v) list" where
  "Object_entries r =
     sort_key (\<lambda>e. indexValue (fst e)) (filter (\<lambda>e. isArrayIndex (fst e)) r) @
     filter (\<lambda>e. \<not> isArrayIndex (fst e)) r"

section \<open>Data model (types.ts)\<close>

record PaperMetadata =
  title :: string
  summary :: string
  authors :: "string list"
  topic :: string
  subTopic :: "string option"
  tags :: "string list"
  journal :: "string option"
  publishDate :: "string option"

text \<open>A Paper has the fields of the metadata record and three of its own.\<close>

record Paper = PaperMetadata +
  id' :: string
  url :: string
  addedAt :: int

text \<open>A paper written out, for the worked examples: the fields they do not read are empty.\<close>

abbreviation paper :: "string \<Rightarrow> string \<Rightarrow> string \<Rightarrow> string option \<Rightarrow> string list \<Rightarrow> int \<Rightarrow> Paper" where
  "paper i ttl tpc sub tgs stamp \<equiv>
     \<lparr>title = ttl, summary = [], authors = [], topic = tpc, subTopic = sub, tags = tgs,
      journal = None, publishDate = None, id' = i, url = [], addedAt = stamp\<rparr>"

abbreviation metadata :: "string \<Rightarrow> string \<Rightarrow> PaperMetadata" where
  "metadata ttl tpc \<equiv>
     \<lparr>title = ttl, summary = [], authors = [], topic = tpc, subTopic = None, tags = [],
      journal = None, publishDate = None\<rparr>"

section \<open>Application state and handlers (App.tsx)\<close>

record App =
  papers :: "Paper list"
  selectedTopic :: "string option"
  selectedSubTopic :: "string option"
  selectedTag :: "string option"
  searchQuery :: string

definition handleAddPaper :: "Paper \<Rightarrow> Paper list \<Rightarrow> Paper list" where
  "handleAddPaper newPaper prev = newPaper # prev"

definition handleDeletePaper :: "string \<Rightarrow> Paper list \<Rightarrow> Paper list" where
  "handleDeletePaper i prev = filter (\<lambda>p. id' p \<noteq> i) prev"

definition handleUpdateMetadata ::
  "string \<Rightarrow> string \<Rightarrow> string option \<Rightarrow> string list \<Rightarrow> Paper list \<Rightarrow> Paper list" where
  "handleUpdateMetadata i newTopic newSubTopic newTags prev =
     map (\<lambda>p. if id' p = i
               then p\<lparr>topic := newTopic, subTopic := newSubTopic, tags := newTags\<rparr>
               else p) prev"

definition handleTopicSelection :: "string option \<Rightarrow> App \<Rightarrow> App" where
  "handleTopicSelection t s =
     s\<lparr>selectedTopic := t, selectedSubTopic := None, selectedTag := None\<rparr>"

definition handleTagClick :: "string \<Rightarrow> App \<Rightarrow> App" where
  "handleTagClick tag s =
     s\<lparr>selectedTag := Some tag, selectedTopic := None, selectedSubTopic := None\<rparr>"

definition setSelectedSubTopic :: "string option \<Rightarrow> App \<Rightarrow> App" where
  "setSelectedSubTopic st s = s\<lparr>selectedSubTopic := st\<rparr>"

definition setSelectedTag :: "string option \<Rightarrow> App \<Rightarrow> App" where
  "setSelectedTag tg s = s\<lparr>selectedTag := tg\<rparr>"

definition setSearchQuery :: "string \<Rightarrow> App \<Rightarrow> App" where
  "setSearchQuery q s = s\<lparr>searchQuery := q\<rparr>"

definition setPapers :: "(Paper list \<Rightarrow> Paper list) \<Rightarrow> App \<Rightarrow> App" where
  "setPapers f s = s\<lparr>papers := f (papers s)\<rparr>"

section \<open>Taxonomy counts (App.tsx, Sidebar)\<close>

text \<open>
  The counts are kept in an object created by \<^verbatim>\<open>{}\<close>, which inherits the properties of
  \<^verbatim>\<open>Object.prototype\<close>: eleven functions and the accessor \<^verbatim>\<open>__proto__\<close>. Reading a key
  that is no own property gives the inherited value if the key names one, and
  \<^verbatim>\<open>undefined\<close> otherwise. An inherited value is truthy and no number, so adding 1 to
  it gives a string: the text of the value followed by \<^verbatim>\<open>1\<close>. Writing a key creates or
  replaces the own property, but for \<^verbatim>\<open>__proto__\<close>, whose setter ignores a string.
  So an entry is a number, or the text of the inherited function of its key followed
  by some digits \<^verbatim>\<open>1\<close>; that text is left to the implementation, and the entry keeps
  the number of digits.
\<close>

datatype count = Count int | Garbled nat

definition inheritedFunctions :: "string list" where
  "inheritedFunctions =
     [''constructor'', ''hasOwnProperty'', ''isPrototypeOf'', ''propertyIsEnumerable'',
      ''toLocaleString'', ''toString'', ''valueOf'', ''__defineGetter__'', ''__defineSetter__'',
      ''__lookupGetter__'', ''__lookupSetter__'']"

definition inheritedNames :: "string list" where
  "inheritedNames = ''__proto__'' # inheritedFunctions"

definition bump :: "(string \<times> count) list \<Rightarrow> string \<Rightarrow> (string \<times> count) list" where
  \<comment> \<open>\<^verbatim>\<open>counts[k] = (counts[k] || 0) + 1\<close>\<close>
  "bump counts k =
     (case map_of counts k of
        Some (Count n) \<Rightarrow> AList.update k (Count ((if n \<noteq> 0 then n else 0) + 1)) counts
      | Some (Garbled m) \<Rightarrow> AList.update k (Garbled (Suc m)) counts
      | None \<Rightarrow>
          if k = ''__proto__'' then counts
          else if k \<in> set inheritedFunctions then AList.update k (Garbled 1) counts
          else AList.update k (Count (0 + 1)) counts)"

definition topics :: "Paper list \<Rightarrow> (string \<times> count) list" where
  "topics ps = foldl (\<lambda>topicCounts p. if topic p \<noteq> [] then bump topicCounts (topic p) else topicCounts) [] ps"

definition subTopics :: "Paper list \<Rightarrow> string option \<Rightarrow> (string \<times> count) list" where
  "subTopics ps sel =
     (case sel of
        None \<Rightarrow> []
      | Some t \<Rightarrow>
          if t = [] then []
          else foldl (\<lambda>counts p.
                 (case subTopic p of
                    Some st \<Rightarrow> if topic p = t \<and> st \<noteq> [] then bump counts st else counts
                  | None \<Rightarrow> counts)) [] ps)"

definition byCountDesc :: "string \<times> count \<Rightarrow> string \<times> count \<Rightarrow> int" where
  \<comment> \<open>\<^verbatim>\<open>b[1] - a[1]\<close>: the difference is not a number when an operand is a garbled
      string, and the sort takes such a result for 0\<close>
  "byCountDesc a b = (case (snd a, snd b) of (Count x, Count y) \<Rightarrow> y - x | _ \<Rightarrow> 0)"

definition sortedTopics :: "(string \<times> count) list \<Rightarrow> (string \<times> count) list" where
  "sortedTopics tc = Array_sort byCountDesc (Object_entries tc)"

definition sortedSubTopics :: "(string \<times> count) list \<Rightarrow> (string \<times> count) list" where
  "sortedSubTopics sc = Array_sort byCountDesc (Object_entries sc)"

section \<open>Filtering (App.tsx)\<close>

definition matchesTopic :: "App \<Rightarrow> Paper \<Rightarrow> bool" where
  "matchesTopic s p =
     (case selectedTopic s of Some t \<Rightarrow> (if t \<noteq> [] then topic p = t else True) | None \<Rightarrow> True)"

definition matchesSubTopic :: "App \<Rightarrow> Paper \<Rightarrow> bool" where
  "matchesSubTopic s p =
     (case selectedSubTopic s of
        Some st \<Rightarrow> (if st \<noteq> [] then subTopic p = Some st else True)
      | None \<Rightarrow> True)"

definition matchesTag :: "App \<Rightarrow> Paper \<Rightarrow> bool" where
  "matchesTag s p =
     (case selectedTag s of Some tg \<Rightarrow> (if tg \<noteq> [] then tg \<in> set (tags p) else True) | None \<Rightarrow> True)"

definition matchesSearch :: "App \<Rightarrow> Paper \<Rightarrow> bool" where
  "matchesSearch s p =
     (if searchQuery s \<noteq> [] then
        str_includes (toLowerCase (title p)) (toLowerCase (searchQuery s)) \<or>
        list_ex (\<lambda>a. str_includes (toLowerCase a) (toLowerCase (searchQuery s))) (authors p) \<or>
        list_ex (\<lambda>t. str_includes (toLowerCase t) (toLowerCase (searchQuery s))) (tags p) \<or>
        str_includes (toLowerCase (topic p)) (toLowerCase (searchQuery s)) \<or>
        (case subTopic p of
           Some st \<Rightarrow> st \<noteq> [] \<and> str_includes (toLowerCase st) (toLowerCase (searchQuery s))
         | None \<Rightarrow> False)
      else True)"

definition newestFirst :: "Paper \<Rightarrow> Paper \<Rightarrow> int" where
  "newestFirst a b = addedAt b - addedAt a"

definition filteredPapers :: "App \<Rightarrow> Paper list" where
  "filteredPapers s =
     Array_sort newestFirst
       (filter (\<lambda>p. matchesTopic s p \<and> matchesSubTopic s p \<and> matchesTag s p \<and> matchesSearch s p)
          (papers s))"

section \<open>Selection and collection events\<close>

text \<open>
  One step of the application: an event of the interface runs one handler. The sidebar
  offers the topics of the count mapping, and the sub-topics only under the topic that
  is selected; a card is shown for every filtered paper and offers its tags, its
  deletion and the edit of its classification; the banner clears the tag while one is
  selected. An admitted paper reaches \<^const>\<open>handleAddPaper\<close>.
\<close>

inductive step :: "App \<Rightarrow> App \<Rightarrow> bool" where
  allPapers: "step s (handleTopicSelection None s)"
| topicButton:
    "t \<in> fst ` set (sortedTopics (topics (papers s))) \<Longrightarrow>
     step s (handleTopicSelection (if Some t = selectedTopic s then None else Some t) s)"
| subTopicButton:
    "t \<in> fst ` set (sortedTopics (topics (papers s))) \<Longrightarrow> selectedTopic s = Some t \<Longrightarrow>
     sub \<in> fst ` set (sortedSubTopics (subTopics (papers s) (selectedTopic s))) \<Longrightarrow>
     step s (setSelectedSubTopic (if Some sub = selectedSubTopic s then None else Some sub) s)"
| tagClick:
    "p \<in> set (filteredPapers s) \<Longrightarrow> tag \<in> set (tags p) \<Longrightarrow> step s (handleTagClick tag s)"
| clearTag:
    "selectedTag s = Some tg \<Longrightarrow> tg \<noteq> [] \<Longrightarrow> step s (setSelectedTag None s)"
| search: "step s (setSearchQuery q s)"
| add: "step s (setPapers (handleAddPaper newPaper) s)"
| delete: "p \<in> set (filteredPapers s) \<Longrightarrow> step s (setPapers (handleDeletePaper (id' p)) s)"
| update:
    "p \<in> set (filteredPapers s) \<Longrightarrow>
     step s (setPapers (handleUpdateMetadata (id' p) newTopic newSubTopic newTags) s)"

definition initial :: "Paper list \<Rightarrow> App" where
  "initial loaded =
     \<lparr>papers = loaded, selectedTopic = None, selectedSubTopic = None, selectedTag = None,
      searchQuery = []\<rparr>"

inductive reachable :: "App \<Rightarrow> bool" where
  start: "reachable (initial loaded)"
| later: "reachable s \<Longrightarrow> step s s' \<Longrightarrow> reachable s'"

section \<open>Upgrade of stored records on load (App.tsx)\<close>

text \<open>
  A stored record, as the upgrade reads it: the topic and the tags, each absent or
  present, and the remaining fields, which the spread copies.
\<close>

datatype 'r stored = Stored (topic_of: "string option") (tags_of: "string list option") (rest_of: 'r)

definition migrate :: "'r stored \<Rightarrow> 'r stored" where
  "migrate p =
     Stored
       (Some (case topic_of p of
                Some t \<Rightarrow>
                  if t \<noteq> [] then t
                  else (case tags_of p of Some (x # xs) \<Rightarrow> x | _ \<Rightarrow> ''Biology'')
              | None \<Rightarrow> (case tags_of p of Some (x # xs) \<Rightarrow> x | _ \<Rightarrow> ''Biology'')))
       (Some (case tags_of p of Some ts \<Rightarrow> ts | None \<Rightarrow> []))
       (rest_of p)"

section \<open>Extraction of the JSON text (geminiService.ts, parseResponse)\<close>

text \<open>
  The pattern \<^verbatim>\<open>```json\s*([\s\S]*?)\s*```\<close>, matched as a backtracking matcher does:
  leftmost start first; the first \<^verbatim>\<open>\s*\<close> longest first; the group shortest first.
  The second \<^verbatim>\<open>\s*\<close> can only end where the white space ends, since the closing
  fence begins with a character that is not white space.
\<close>

definition closesFence :: "string \<Rightarrow> bool" where
  "closesFence s = prefix [CHR 0x60, CHR 0x60, CHR 0x60] (dropWhile isWhiteSpace s)"

fun lazyGroup :: "string \<Rightarrow> string option" where
  "lazyGroup [] = (if closesFence [] then Some [] else None)"
| "lazyGroup (c # cs) =
     (if closesFence (c # cs) then Some [] else map_option ((#) c) (lazyGroup cs))"

fun greedySpace :: "nat \<Rightarrow> string \<Rightarrow> string option" where
  "greedySpace 0 s = lazyGroup s"
| "greedySpace (Suc k) s =
     (case lazyGroup (drop (Suc k) s) of Some g \<Rightarrow> Some g | None \<Rightarrow> greedySpace k s)"

definition matchAt :: "string \<Rightarrow> string option" where
  "matchAt s =
     (if prefix ([CHR 0x60, CHR 0x60, CHR 0x60] @ ''json'') s
      then greedySpace (length (takeWhile isWhiteSpace (drop 7 s))) (drop 7 s)
      else None)"

fun jsonCodeBlockMatch :: "string \<Rightarrow> string option" where
  "jsonCodeBlockMatch [] = matchAt []"
| "jsonCodeBlockMatch (c # cs) =
     (case matchAt (c # cs) of Some g \<Rightarrow> Some g | None \<Rightarrow> jsonCodeBlockMatch cs)"

definition jsonString :: "string \<Rightarrow> string" where
  "jsonString text =
     (case jsonCodeBlockMatch text of
        Some g \<Rightarrow> g
      | None \<Rightarrow>
          (let firstBrace = indexOf text CHR ''{'';
               lastBrace = lastIndexOf text CHR ''}''
           in if firstBrace \<noteq> - 1 \<and> lastBrace \<noteq> - 1 \<and> lastBrace > firstBrace
              then substring text firstBrace (lastBrace + 1)
              else trim text))"

section \<open>Validation of the parsed value (geminiService.ts, parseResponse)\<close>

datatype jsnumber = Finite rat | PosInfinity | NegInfinity

datatype json =
  JNull | JBool bool | JNumber jsnumber | JString string
  | JArray "json list" | JObject "(string \<times> json) list"

text \<open>
  Reading one of the five fields the validation reads: an object gives its own
  property, any other value but \<^verbatim>\<open>null\<close> has none of them; \<open>None\<close> is \<^verbatim>\<open>undefined\<close>.
\<close>

definition field :: "json \<Rightarrow> string \<Rightarrow> json option" where
  "field data k = (case data of JObject kvs \<Rightarrow> map_of kvs k | _ \<Rightarrow> None)"

fun truthy :: "json option \<Rightarrow> bool" where
  "truthy None = False"
| "truthy (Some JNull) = False"
| "truthy (Some (JBool b)) = b"
| "truthy (Some (JNumber (Finite r))) = (r \<noteq> 0)"
| "truthy (Some (JNumber _)) = True"
| "truthy (Some (JString s)) = (s \<noteq> [])"
| "truthy (Some (JArray _)) = True"
| "truthy (Some (JObject _)) = True"

fun isArray :: "json option \<Rightarrow> bool" where
  "isArray (Some (JArray _)) = True"
| "isArray _ = False"

datatype exn = SyntaxError | TypeError | Thrown string

datatype detail = Exn exn | Text string

datatype console = ConsoleWarn string json | ConsoleError string detail

datatype error = Error (message: string)

text \<open>
  The body of the \<^verbatim>\<open>try\<close>: what it logs, and what it throws or returns. The parser
  \<^verbatim>\<open>JSON.parse\<close> is a parameter: \<open>None\<close> where it throws.
\<close>

definition tryBody :: "(string \<Rightarrow> json option) \<Rightarrow> string \<Rightarrow> console list \<times> (exn + json)" where
  "tryBody JSON_parse js =
     (case JSON_parse js of
        None \<Rightarrow> ([], Inl SyntaxError)
      | Some data \<Rightarrow>
          if data = JNull then ([], Inl TypeError)
          else if \<not> truthy (field data ''title'') \<or> \<not> truthy (field data ''summary'') \<or>
                  \<not> isArray (field data ''authors'') \<or> \<not> isArray (field data ''tags'') \<or>
                  \<not> truthy (field data ''topic'')
          then (if \<not> truthy (field data ''title'')
                then ([ConsoleWarn ''Incomplete data structure received'' data],
                      Inl (Thrown ''Could not extract paper title from AI response.''))
                else ([ConsoleWarn ''Incomplete data structure received'' data], Inr data))
          else ([], Inr data))"

definition parseResponse ::
  "(string \<Rightarrow> json option) \<Rightarrow> string option \<Rightarrow> console list \<times> (error + json)" where
  "parseResponse JSON_parse text =
     (case text of
        None \<Rightarrow> ([], Inl (Error ''No response received from AI service.''))
      | Some t \<Rightarrow>
          if t = [] then ([], Inl (Error ''No response received from AI service.''))
          else (case tryBody JSON_parse (jsonString t) of
                  (logged, Inr data) \<Rightarrow> (logged, Inr data)
                | (logged, Inl e) \<Rightarrow>
                    (logged @ [ConsoleError ''JSON Parse Error:'' (Exn e),
                            ConsoleError ''Raw Text Received:'' (Text t),
                            ConsoleError ''Attempted JSON String:'' (Text (jsonString t))],
                     Inl (Error ''Failed to parse AI response. The model did not return valid JSON.''))))"

section \<open>The analysis of a locator or a document (geminiService.ts)\<close>

text \<open>
  What the call of the service gives: it throws, or it returns a response with a text,
  if any, and the finish reason, if any, of each candidate. What the functions write to
  the console is left out here.
\<close>

datatype response = Response (responseText: "string option") (finishReasons: "string option list")

datatype generated = Threw error | Returned response

definition shownReason :: "string option \<Rightarrow> string" where
  \<comment> \<open>a reason inside a template literal\<close>
  "shownReason reason = (case reason of Some r \<Rightarrow> r | None \<Rightarrow> ''undefined'')"

definition urlAttempt :: "(string \<Rightarrow> json option) \<Rightarrow> generated \<Rightarrow> error + json" where
  "urlAttempt JSON_parse generated =
     (case generated of
        Threw e \<Rightarrow> Inl e
      | Returned response \<Rightarrow>
          if responseText response = None \<or> responseText response = Some []
          then (case finishReasons response of
                  reason # others \<Rightarrow>
                    if reason \<noteq> Some ''STOP''
                    then (if reason = Some ''RECITATION''
                          then Inl (Error ''The AI service blocked the response due to copyright (RECITATION). The paper's text might be protected. Please try adding the paper via PDF upload instead.'')
                          else Inl (Error (''The AI service blocked the response (Reason: '' @ shownReason reason @
                                 ''). The paper might be behind a strict paywall or triggered sensitive content filters.'')))
                    else Inl (Error ''The AI service returned an empty response. Please check if the URL is accessible and points to a valid paper.'')
                | [] \<Rightarrow> Inl (Error ''The AI service returned an empty response. Please check if the URL is accessible and points to a valid paper.''))
          else snd (parseResponse JSON_parse (responseText response)))"

definition analyzePaperUrl :: "(string \<Rightarrow> json option) \<Rightarrow> string option \<Rightarrow> generated \<Rightarrow> error + json" where
  "analyzePaperUrl JSON_parse apiKey generated =
     (if apiKey = None \<or> apiKey = Some []
      then Inl (Error ''API Key not found in environment variables'')
      else (case urlAttempt JSON_parse generated of
              Inl e \<Rightarrow>
                Inl (Error (if message e \<noteq> [] then message e
                            else ''Failed to analyze paper. Please check the URL or try again.''))
            | Inr parsed \<Rightarrow> Inr parsed))"

text \<open>
  The analysis of a document returns the parsed value together with its \<^verbatim>\<open>foundUrl\<close>, which
  the source stores under \<^verbatim>\<open>url\<close> in a copy of the value.
\<close>

definition pdfAttempt :: "(string \<Rightarrow> json option) \<Rightarrow> generated \<Rightarrow> error + json \<times> json option" where
  "pdfAttempt JSON_parse generated =
     (case generated of
        Threw e \<Rightarrow> Inl e
      | Returned response \<Rightarrow>
          if responseText response = None \<or> responseText response = Some []
          then (case finishReasons response of
                  reason # others \<Rightarrow>
                    if reason \<noteq> Some ''STOP''
                    then Inl (Error (''The AI service blocked the response (Reason: '' @ shownReason reason @ '').''))
                    else Inl (Error ''The AI service returned an empty response for the PDF.'')
                | [] \<Rightarrow> Inl (Error ''The AI service returned an empty response for the PDF.''))
          else (case snd (parseResponse JSON_parse (responseText response)) of
                  Inl e \<Rightarrow> Inl e
                | Inr data \<Rightarrow> Inr (data, field data ''foundUrl'')))"

definition analyzePaperPdf ::
  "(string \<Rightarrow> json option) \<Rightarrow> string option \<Rightarrow> generated \<Rightarrow> error + json \<times> json option" where
  "analyzePaperPdf JSON_parse apiKey generated =
     (if apiKey = None \<or> apiKey = Some []
      then Inl (Error ''API Key not found in environment variables'')
      else (case pdfAttempt JSON_parse generated of
              Inl e \<Rightarrow>
                Inl (Error
                  (if str_includes (message e) ''413'' \<or> str_includes (message e) ''too large''
                   then ''PDF file is too large. Please try a smaller file (under 10MB).''
                   else if str_includes (message e) ''JSON''
                   then ''AI response parsing failed. Please try again.''
                   else if message e \<noteq> [] then message e
                   else ''Failed to analyze PDF.''))
            | Inr result \<Rightarrow> Inr result))"

section \<open>Admission of a new paper (AddPaperModal.tsx, handleSubmit)\<close>

datatype AddMode = UrlMode | DoiMode | PdfMode

definition inputCheck :: "AddMode \<Rightarrow> string \<Rightarrow> bool \<Rightarrow> error option" where
  \<comment> \<open>what the submission throws before it calls the analysis: on an input that is
      empty when trimmed, or when no file is selected\<close>
  "inputCheck mode inputValue fileSelected =
     (case mode of
        UrlMode \<Rightarrow> if trim inputValue = [] then Some (Error ''Please enter a URL'') else None
      | DoiMode \<Rightarrow> if trim inputValue = [] then Some (Error ''Please enter a DOI'') else None
      | PdfMode \<Rightarrow> if \<not> fileSelected then Some (Error ''Please select a PDF file'') else None)"

definition isDuplicate :: "Paper list \<Rightarrow> PaperMetadata \<Rightarrow> bool" where
  "isDuplicate existingPapers paperMetadata =
     list_ex (\<lambda>p. trim (toLowerCase (title p)) = trim (toLowerCase (title paperMetadata)))
       existingPapers"

text \<open>
  The submission from the point where the input is checked and the analysis has
  answered: the answer is the metadata, if any, or the error that was thrown on the way,
  by the check or by the analysis. The result is the error the dialog shows, if any,
  and the collection afterwards. The fresh identifier and the clock are parameters.
\<close>

definition handleSubmit ::
  "Paper list \<Rightarrow> string \<Rightarrow> error + PaperMetadata option \<Rightarrow> string \<Rightarrow> int \<Rightarrow>
   string option \<times> Paper list" where
  "handleSubmit existingPapers paperUrl analysis randomUUID now =
     (case analysis of
        Inl err \<Rightarrow>
          (Some (if message err \<noteq> [] then message err else ''Failed to analyze paper''), existingPapers)
      | Inr None \<Rightarrow> (Some ''Failed to retrieve metadata'', existingPapers)
      | Inr (Some paperMetadata) \<Rightarrow>
          if isDuplicate existingPapers paperMetadata
          then (Some ''This paper already exists in your bookshelf'', existingPapers)
          else (None,
                handleAddPaper
                  \<lparr>title = title paperMetadata, summary = summary paperMetadata,
                   authors = authors paperMetadata, topic = topic paperMetadata,
                   subTopic = subTopic paperMetadata, tags = tags paperMetadata,
                   journal = journal paperMetadata, publishDate = publishDate paperMetadata,
                   id' = randomUUID, url = paperUrl, addedAt = now\<rparr>
                  existingPapers))"

definition rendersAsDuplicate :: "string \<Rightarrow> bool" where
  \<comment> \<open>the dialog's test \<^verbatim>\<open>error.includes("already exists")\<close>\<close>
  "rendersAsDuplicate err = str_includes err ''already exists''"

text \<open>
  The text the service itself supplies to a failure: the message of the error its call
  threw, or the finish reason of the first candidate.
\<close>

definition serviceSaysAlreadyExists :: "generated \<Rightarrow> bool" where
  "serviceSaysAlreadyExists generated =
     (case generated of
        Threw e \<Rightarrow> str_includes (message e) ''already exists''
      | Returned response \<Rightarrow>
          (case finishReasons response of
             reason # others \<Rightarrow> str_includes (shownReason reason) ''already exists''
           | [] \<Rightarrow> False))"

section \<open>Numeric count mappings\<close>

text \<open>
  The number an entry holds, and the mappings all of whose entries are numbers.
\<close>

fun numberOf :: "count \<Rightarrow> int" where
  "numberOf (Count n) = n"
| "numberOf (Garbled m) = 0"

definition numeric :: "(string \<times> count) list \<Rightarrow> bool" where
  "numeric counts = list_all (\<lambda>e. snd e = Count (numberOf (snd e))) counts"

section \<open>Consistency of the selection\<close>


section \<open>The predicates of the filter, axis by axis\<close>

text \<open>
  The code reads the empty label as no selection. So an axis of the selection is
  active when a label is selected and is not the empty string; the search is active
  when the text is not empty. A string contains another ignoring case when the
  lower-cased one occurs in the lower-cased other.
\<close>

definition axisActive :: "string option \<Rightarrow> bool" where
  "axisActive sel = (sel \<noteq> None \<and> sel \<noteq> Some [])"

definition containsIgnoringCase :: "string \<Rightarrow> string \<Rightarrow> bool" where
  "containsIgnoringCase s q = (\<exists>a b. toLowerCase s = a @ toLowerCase q @ b)"

definition satisfiesSelection :: "App \<Rightarrow> Paper \<Rightarrow> bool" where
  "satisfiesSelection s p =
     ((axisActive (selectedTopic s) \<longrightarrow> Some (topic p) = selectedTopic s) \<and>
      (axisActive (selectedSubTopic s) \<longrightarrow> subTopic p = selectedSubTopic s) \<and>
      (axisActive (selectedTag s) \<longrightarrow> (\<exists>tg \<in> set (tags p). Some tg = selectedTag s)) \<and>
      (searchQuery s \<noteq> [] \<longrightarrow>
         containsIgnoringCase (title p) (searchQuery s) \<or>
         (\<exists>a \<in> set (authors p). containsIgnoringCase a (searchQuery s)) \<or>
         (\<exists>tg \<in> set (tags p). containsIgnoringCase tg (searchQuery s)) \<or>
         containsIgnoringCase (topic p) (searchQuery s) \<or>
         (\<exists>st. subTopic p = Some st \<and> containsIgnoringCase st (searchQuery s))))"

section \<open>The extraction, in the words of its contract\<close>

text \<open>
  A text has a JSON block when the opening fence with its tag is followed, at any
  distance, by a closing fence; it has a brace pair when an opening brace is followed,
  at any distance, by a closing one.
\<close>

definition hasJsonBlock :: "string \<Rightarrow> bool" where
  "hasJsonBlock text =
     (\<exists>pre inner post. text = pre @ [CHR 0x60, CHR 0x60, CHR 0x60] @ ''json'' @ inner @
                                 [CHR 0x60, CHR 0x60, CHR 0x60] @ post)"

definition hasBracePair :: "string \<Rightarrow> bool" where
  "hasBracePair text = (\<exists>a b c. text = a @ ''{'' @ b @ ''}'' @ c)"

definition whiteSpace :: "string \<Rightarrow> bool" where
  "whiteSpace w = list_all isWhiteSpace w"

text \<open>
  The first JSON block of a text: its opening tag is the first in the text, and its
  closing fence is the first fence after the tag.
\<close>

definition firstJsonBlock :: "string \<Rightarrow> string \<Rightarrow> string \<Rightarrow> string \<Rightarrow> bool" where
  "firstJsonBlock text pre inner post =
     (text = pre @ [CHR 0x60, CHR 0x60, CHR 0x60] @ ''json'' @ inner @ [CHR 0x60, CHR 0x60, CHR 0x60] @ post \<and>
      \<not> sublist ([CHR 0x60, CHR 0x60, CHR 0x60] @ ''json'') (pre @ [CHR 0x60, CHR 0x60, CHR 0x60] @ ''jso'') \<and>
      \<not> sublist [CHR 0x60, CHR 0x60, CHR 0x60] (inner @ [CHR 0x60, CHR 0x60]))"

section \<open>Deleting a paper\<close>

text \<open>
  C10. Deleting a paper removes exactly the papers whose id equals the given id. The
  papers that remain are the records they were, in the same relative order: the result
  is a sub-sequence of the collection, and the largest one free of the id. Deleting an
  id that no paper has leaves the collection as it was.
\<close>

theorem delete_removes_exactly:
  "set (handleDeletePaper i ps) = {p \<in> set ps. id' p \<noteq> i}
   \<and> subseq (handleDeletePaper i ps) ps
   \<and> (\<forall>q. subseq q ps \<and> (\<forall>p \<in> set q. id' p \<noteq> i) \<longrightarrow> subseq q (handleDeletePaper i ps))
   \<and> (i \<notin> id' ` set ps \<longrightarrow> handleDeletePaper i ps = ps)"
proof -
  have exact: "set (handleDeletePaper i ps) = {p \<in> set ps. id' p \<noteq> i}"
    by (auto simp: handleDeletePaper_def)
  have sub: "subseq (handleDeletePaper i ps) ps"
    by (simp add: handleDeletePaper_def)
  have largest: "subseq q (handleDeletePaper i ps)"
    if q: "subseq q ps" and avoid: "\<forall>p \<in> set q. id' p \<noteq> i" for q
  proof -
    from avoid have "filter (\<lambda>p. id' p \<noteq> i) q = q"
      by (simp add: filter_id_conv)
    moreover from q have "subseq (filter (\<lambda>p. id' p \<noteq> i) q) (filter (\<lambda>p. id' p \<noteq> i) ps)"
      by (rule subseq_filter)
    ultimately show ?thesis by (simp add: handleDeletePaper_def)
  qed
  have absent: "handleDeletePaper i ps = ps" if "i \<notin> id' ` set ps"
    using that by (auto simp: handleDeletePaper_def filter_id_conv)
  from exact sub largest absent show ?thesis by blast
qed

theorem delete_removes_exactly_witness:
  "handleDeletePaper ''b'' [paper ''a'' ''T1'' ''X'' None [] 3, paper ''b'' ''T2'' ''X'' None [] 2, paper ''c'' ''T3'' ''Y'' None [] 1]
     = [paper ''a'' ''T1'' ''X'' None [] 3, paper ''c'' ''T3'' ''Y'' None [] 1]
   \<and> subseq [paper ''c'' ''T3'' ''Y'' None [] 1]
        (handleDeletePaper ''b'' [paper ''a'' ''T1'' ''X'' None [] 3, paper ''b'' ''T2'' ''X'' None [] 2, paper ''c'' ''T3'' ''Y'' None [] 1])
   \<and> handleDeletePaper ''z'' [paper ''a'' ''T1'' ''X'' None [] 3, paper ''b'' ''T2'' ''X'' None [] 2]
     = [paper ''a'' ''T1'' ''X'' None [] 3, paper ''b'' ''T2'' ''X'' None [] 2]"
proof -
  let ?ps = "[paper ''a'' ''T1'' ''X'' None [] 3, paper ''b'' ''T2'' ''X'' None [] 2, paper ''c'' ''T3'' ''Y'' None [] 1]"
  let ?qs = "[paper ''a'' ''T1'' ''X'' None [] 3, paper ''b'' ''T2'' ''X'' None [] 2]"
  have 1: "handleDeletePaper ''b'' ?ps = [paper ''a'' ''T1'' ''X'' None [] 3, paper ''c'' ''T3'' ''Y'' None [] 1]"
    by (simp add: handleDeletePaper_def)
  have q: "subseq [paper ''c'' ''T3'' ''Y'' None [] 1] ?ps \<and> (\<forall>p \<in> set [paper ''c'' ''T3'' ''Y'' None [] 1]. id' p \<noteq> ''b'')"
    by simp
  from delete_removes_exactly [of "''b''" ?ps] q
  have 2: "subseq [paper ''c'' ''T3'' ''Y'' None [] 1] (handleDeletePaper ''b'' ?ps)" by blast
  have "''z'' \<notin> id' ` set ?qs" by simp
  with delete_removes_exactly [of "''z''" ?qs] have 3: "handleDeletePaper ''z'' ?qs = ?qs" by blast
  from 1 2 3 show ?thesis by blast
qed

section \<open>Updating the classification of a paper\<close>

text \<open>
  C9. An update of the metadata changes only the topic, the sub-topic and the tags of
  the papers whose id is the given one: at every position of the collection, a paper
  with that id becomes the same record with the three fields replaced, a paper with
  another id stays as it is, and id, url, title, summary, authors, journal, publish date
  and creation time are what they were. No event changes the id or the creation time
  of a paper of the collection: a step puts a new paper in front of the unchanged
  collection, or keeps a sub-sequence of it, or keeps every id and creation time in
  place.
\<close>

theorem update_frame:
  "length (handleUpdateMetadata i newTopic newSubTopic newTags ps) = length ps
   \<and> (\<forall>k < length ps.
         (id' (ps ! k) = i \<longrightarrow>
            handleUpdateMetadata i newTopic newSubTopic newTags ps ! k
              = (ps ! k)\<lparr>topic := newTopic, subTopic := newSubTopic, tags := newTags\<rparr>)
       \<and> (id' (ps ! k) \<noteq> i \<longrightarrow> handleUpdateMetadata i newTopic newSubTopic newTags ps ! k = ps ! k)
       \<and> id' (handleUpdateMetadata i newTopic newSubTopic newTags ps ! k) = id' (ps ! k)
       \<and> url (handleUpdateMetadata i newTopic newSubTopic newTags ps ! k) = url (ps ! k)
       \<and> title (handleUpdateMetadata i newTopic newSubTopic newTags ps ! k) = title (ps ! k)
       \<and> summary (handleUpdateMetadata i newTopic newSubTopic newTags ps ! k) = summary (ps ! k)
       \<and> authors (handleUpdateMetadata i newTopic newSubTopic newTags ps ! k) = authors (ps ! k)
       \<and> journal (handleUpdateMetadata i newTopic newSubTopic newTags ps ! k) = journal (ps ! k)
       \<and> publishDate (handleUpdateMetadata i newTopic newSubTopic newTags ps ! k) = publishDate (ps ! k)
       \<and> addedAt (handleUpdateMetadata i newTopic newSubTopic newTags ps ! k) = addedAt (ps ! k))
   \<and> (step s s' \<longrightarrow>
         (\<exists>newPaper. papers s' = newPaper # papers s)
       \<or> subseq (papers s') (papers s)
       \<or> (map id' (papers s') = map id' (papers s) \<and> map addedAt (papers s') = map addedAt (papers s)))"
proof -
  have len: "length (handleUpdateMetadata i newTopic newSubTopic newTags ps) = length ps"
    by (simp add: handleUpdateMetadata_def)
  have pointwise: "\<forall>k < length ps.
         (id' (ps ! k) = i \<longrightarrow>
            handleUpdateMetadata i newTopic newSubTopic newTags ps ! k
              = (ps ! k)\<lparr>topic := newTopic, subTopic := newSubTopic, tags := newTags\<rparr>)
       \<and> (id' (ps ! k) \<noteq> i \<longrightarrow> handleUpdateMetadata i newTopic newSubTopic newTags ps ! k = ps ! k)
       \<and> id' (handleUpdateMetadata i newTopic newSubTopic newTags ps ! k) = id' (ps ! k)
       \<and> url (handleUpdateMetadata i newTopic newSubTopic newTags ps ! k) = url (ps ! k)
       \<and> title (handleUpdateMetadata i newTopic newSubTopic newTags ps ! k) = title (ps ! k)
       \<and> summary (handleUpdateMetadata i newTopic newSubTopic newTags ps ! k) = summary (ps ! k)
       \<and> authors (handleUpdateMetadata i newTopic newSubTopic newTags ps ! k) = authors (ps ! k)
       \<and> journal (handleUpdateMetadata i newTopic newSubTopic newTags ps ! k) = journal (ps ! k)
       \<and> publishDate (handleUpdateMetadata i newTopic newSubTopic newTags ps ! k) = publishDate (ps ! k)
       \<and> addedAt (handleUpdateMetadata i newTopic newSubTopic newTags ps ! k) = addedAt (ps ! k)"
    by (simp add: handleUpdateMetadata_def)
  have steps: "(\<exists>newPaper. papers s' = newPaper # papers s)
       \<or> subseq (papers s') (papers s)
       \<or> (map id' (papers s') = map id' (papers s) \<and> map addedAt (papers s') = map addedAt (papers s))"
    if "step s s'"
    using that
  proof cases
    case (add newPaper)
    then show ?thesis by (simp add: setPapers_def handleAddPaper_def)
  next
    case (delete p)
    then show ?thesis by (simp add: setPapers_def handleDeletePaper_def)
  next
    case (update p newTopic newSubTopic newTags)
    have "map id' (handleUpdateMetadata (id' p) newTopic newSubTopic newTags (papers s)) = map id' (papers s)"
      by (induction "papers s") (simp_all add: handleUpdateMetadata_def)
    moreover have "map addedAt (handleUpdateMetadata (id' p) newTopic newSubTopic newTags (papers s)) = map addedAt (papers s)"
      by (simp add: handleUpdateMetadata_def)
    ultimately show ?thesis using update by (simp add: setPapers_def)
  qed (simp_all add: handleTopicSelection_def handleTagClick_def setSelectedSubTopic_def
        setSelectedTag_def setSearchQuery_def)
  from len pointwise steps show ?thesis by blast
qed


theorem update_frame_witness:
  "handleUpdateMetadata ''a'' ''N'' (Some ''S'') [''t'']
       [paper ''a'' ''T1'' ''X'' None [] 3, paper ''b'' ''T2'' ''X'' None [] 2] ! 0
     = paper ''a'' ''T1'' ''N'' (Some ''S'') [''t''] 3
   \<and> handleUpdateMetadata ''a'' ''N'' (Some ''S'') [''t'']
       [paper ''a'' ''T1'' ''X'' None [] 3, paper ''b'' ''T2'' ''X'' None [] 2] ! 1
     = paper ''b'' ''T2'' ''X'' None [] 2
   \<and> ((\<exists>newPaper. papers (setPapers (handleAddPaper (paper ''c'' ''T3'' ''Y'' None [] 4)) (initial [paper ''a'' ''T1'' ''X'' None [] 3]))
            = newPaper # papers (initial [paper ''a'' ''T1'' ''X'' None [] 3]))
      \<or> subseq (papers (setPapers (handleAddPaper (paper ''c'' ''T3'' ''Y'' None [] 4)) (initial [paper ''a'' ''T1'' ''X'' None [] 3])))
           (papers (initial [paper ''a'' ''T1'' ''X'' None [] 3]))
      \<or> (map id' (papers (setPapers (handleAddPaper (paper ''c'' ''T3'' ''Y'' None [] 4)) (initial [paper ''a'' ''T1'' ''X'' None [] 3])))
            = map id' (papers (initial [paper ''a'' ''T1'' ''X'' None [] 3]))
          \<and> map addedAt (papers (setPapers (handleAddPaper (paper ''c'' ''T3'' ''Y'' None [] 4)) (initial [paper ''a'' ''T1'' ''X'' None [] 3])))
            = map addedAt (papers (initial [paper ''a'' ''T1'' ''X'' None [] 3]))))"
proof -
  let ?ps = "[paper ''a'' ''T1'' ''X'' None [] 3, paper ''b'' ''T2'' ''X'' None [] 2]"
  let ?s = "initial [paper ''a'' ''T1'' ''X'' None [] 3]"
  let ?s' = "setPapers (handleAddPaper (paper ''c'' ''T3'' ''Y'' None [] 4)) ?s"
  note frame = update_frame [of "''a''" "''N''" "Some ''S''" "[''t'']" ?ps ?s ?s']
  have k0: "(0::nat) < length ?ps" and k1: "(1::nat) < length ?ps" by simp_all
  have ida: "id' (?ps ! 0) = ''a''" and idb: "id' (?ps ! 1) \<noteq> ''a''" by simp_all
  from frame k0 ida
  have "handleUpdateMetadata ''a'' ''N'' (Some ''S'') [''t''] ?ps ! 0
          = (?ps ! 0)\<lparr>topic := ''N'', subTopic := Some ''S'', tags := [''t'']\<rparr>"
    by blast
  then have first: "handleUpdateMetadata ''a'' ''N'' (Some ''S'') [''t''] ?ps ! 0
          = paper ''a'' ''T1'' ''N'' (Some ''S'') [''t''] 3"
    by simp
  from frame k1 idb
  have "handleUpdateMetadata ''a'' ''N'' (Some ''S'') [''t''] ?ps ! 1 = ?ps ! 1"
    by blast
  then have second: "handleUpdateMetadata ''a'' ''N'' (Some ''S'') [''t''] ?ps ! 1
          = paper ''b'' ''T2'' ''X'' None [] 2"
    by simp
  have "step ?s ?s'" by (rule step.add)
  with frame have third: "(\<exists>newPaper. papers ?s' = newPaper # papers ?s)
       \<or> subseq (papers ?s') (papers ?s)
       \<or> (map id' (papers ?s') = map id' (papers ?s) \<and> map addedAt (papers ?s') = map addedAt (papers ?s))"
    by blast
  from first second third show ?thesis by blast
qed

section \<open>Facts about the runtime functions\<close>

subsection \<open>The stable sort\<close>

lemma insertBy_insort_key:
  assumes "\<And>a b. cmp a b = k b - k a"
  shows "insertBy cmp x ys = insort_key (\<lambda>y. - k y) x ys"
  by (induction ys) (simp_all add: assms)

lemma Array_sort_sort_key:
  assumes "\<And>a b. cmp a b = k b - k a"
  shows "Array_sort cmp xs = sort_key (\<lambda>y. - k y) xs"
  by (induction xs) (simp_all add: Array_sort_def sort_key_def insertBy_insort_key [OF assms])

lemma mset_Array_sort:
  assumes "\<And>a b. cmp a b = k b - k a"
  shows "mset (Array_sort cmp xs) = mset xs"
  by (simp add: Array_sort_sort_key [OF assms])

lemma sorted_desc_Array_sort:
  assumes "\<And>a b. cmp a b = k b - k a"
  shows "sorted_wrt (\<lambda>a b. k b \<le> k a) (Array_sort cmp xs)"
proof -
  have "sorted (map (\<lambda>y. - k y) (sort_key (\<lambda>y. - k y) xs))"
    by (rule sorted_sort_key)
  then show ?thesis
    by (simp add: Array_sort_sort_key [OF assms] sorted_map)
qed

lemma stable_Array_sort:
  assumes "\<And>a b. cmp a b = k b - k a"
  shows "filter (\<lambda>x. k x = v) (Array_sort cmp xs) = filter (\<lambda>x. k x = v) xs"
proof -
  have "filter (\<lambda>y. - k y = - v) (sort_key (\<lambda>y. - k y) xs) = filter (\<lambda>y. - k y = - v) xs"
    by (rule sort_key_stable)
  then show ?thesis
    by (simp add: Array_sort_sort_key [OF assms])
qed

lemma mset_Object_entries: "mset (Object_entries r) = mset r"
  by (simp add: Object_entries_def)

lemma mset_insertBy: "mset (insertBy cmp x ys) = add_mset x (mset ys)"
  by (induction ys) simp_all

lemma mset_Array_sort_any: "mset (Array_sort cmp xs) = mset xs"
  by (induction xs) (simp_all add: Array_sort_def mset_insertBy)

lemma insertBy_insort_key_on:
  assumes "\<forall>b \<in> set ys. cmp x b = k b - k x"
  shows "insertBy cmp x ys = insort_key (\<lambda>y. - k y) x ys"
  using assms by (induction ys) simp_all

lemma Array_sort_sort_key_on:
  assumes "\<forall>a \<in> set xs. \<forall>b \<in> set xs. cmp a b = k b - k a"
  shows "Array_sort cmp xs = sort_key (\<lambda>y. - k y) xs"
  using assms
proof (induction xs)
  case Nil
  then show ?case by (simp add: Array_sort_def)
next
  case (Cons x xs)
  then have rest: "Array_sort cmp xs = sort_key (\<lambda>y. - k y) xs"
    by simp
  from Cons.prems have "\<forall>b \<in> set (sort_key (\<lambda>y. - k y) xs). cmp x b = k b - k x"
    by simp
  then have "insertBy cmp x (sort_key (\<lambda>y. - k y) xs)
      = insort_key (\<lambda>y. - k y) x (sort_key (\<lambda>y. - k y) xs)"
    by (rule insertBy_insort_key_on)
  moreover have "Array_sort cmp (x # xs) = insertBy cmp x (Array_sort cmp xs)"
    by (simp add: Array_sort_def)
  ultimately show ?case by (simp add: rest sort_key_def)
qed

lemma sorted_desc_Array_sort_on:
  assumes "\<forall>a \<in> set xs. \<forall>b \<in> set xs. cmp a b = k b - k a"
  shows "sorted_wrt (\<lambda>a b. k b \<le> k a) (Array_sort cmp xs)"
proof -
  have "sorted (map (\<lambda>y. - k y) (sort_key (\<lambda>y. - k y) xs))"
    by (rule sorted_sort_key)
  then show ?thesis
    by (simp add: Array_sort_sort_key_on [OF assms] sorted_map)
qed

subsection \<open>Counting into a record\<close>

lemma numeric_entry:
  assumes "numeric counts" and "map_of counts k = Some v"
  shows "v = Count (numberOf v)"
proof -
  from assms(2) have "(k, v) \<in> set counts" by (rule map_of_SomeD)
  with assms(1) have "snd (k, v) = Count (numberOf (snd (k, v)))"
    unfolding numeric_def list_all_iff by blast
  then show ?thesis by simp
qed

lemma numeric_update: "numeric counts \<Longrightarrow> numeric (AList.update k (Count n) counts)"
  by (induction counts) (auto simp: numeric_def)


lemma distinct_bump: "distinct (map fst counts) \<Longrightarrow> distinct (map fst (bump counts k))"
  by (simp add: bump_def distinct_update split: option.splits count.splits)

lemma numeric_bump:
  assumes "numeric counts" and "k \<notin> set inheritedNames"
  shows "numeric (bump counts k)"
proof (cases "map_of counts k")
  case None
  with assms show ?thesis
    by (simp add: bump_def inheritedNames_def numeric_update)
next
  case (Some v)
  with numeric_entry [OF assms(1) Some] assms(1) show ?thesis
    by (cases v) (simp_all add: bump_def numeric_update)
qed

lemma map_of_bump:
  assumes "numeric counts" and "k \<notin> set inheritedNames"
  shows "map_of (bump counts k) =
    (map_of counts)(k \<mapsto> Count ((case map_of counts k of Some v \<Rightarrow> numberOf v | None \<Rightarrow> 0) + 1))"
proof (cases "map_of counts k")
  case None
  with assms show ?thesis
    by (simp add: bump_def inheritedNames_def update_conv')
next
  case (Some v)
  with numeric_entry [OF assms(1) Some] show ?thesis
    by (cases v) (simp_all add: bump_def update_conv')
qed

lemma distinct_counting:
  "distinct (map fst acc) \<Longrightarrow>
   distinct (map fst (foldl (\<lambda>counts p. if P p then bump counts (key p) else counts) acc ps))"
  by (induction ps arbitrary: acc) (simp_all add: distinct_bump)


lemma numeric_counting:
  "numeric acc \<Longrightarrow> \<forall>p \<in> set ps. P p \<longrightarrow> key p \<notin> set inheritedNames \<Longrightarrow>
   numeric (foldl (\<lambda>counts p. if P p then bump counts (key p) else counts) acc ps)"
  by (induction ps arbitrary: acc) (simp_all add: numeric_bump)

lemma map_of_counting:
  "numeric acc \<Longrightarrow> \<forall>p \<in> set ps. P p \<longrightarrow> key p \<notin> set inheritedNames \<Longrightarrow>
   map_of (foldl (\<lambda>counts p. if P p then bump counts (key p) else counts) acc ps) x =
     (case map_of acc x of
        Some v \<Rightarrow> Some (Count (numberOf v + int (length (filter (\<lambda>p. P p \<and> key p = x) ps))))
      | None \<Rightarrow> (if \<exists>p \<in> set ps. P p \<and> key p = x
                 then Some (Count (int (length (filter (\<lambda>p. P p \<and> key p = x) ps)))) else None))"
proof (induction ps arbitrary: acc)
  case Nil
  then show ?case by (auto split: option.splits dest: numeric_entry)
next
  case (Cons p ps)
  show ?case
  proof (cases "P p")
    case False
    then show ?thesis using Cons.IH [of acc] Cons.prems by (auto split: option.splits)
  next
    case True
    with Cons.prems have ordinary: "key p \<notin> set inheritedNames" by simp
    from numeric_bump [OF Cons.prems(1) ordinary] Cons.prems(2)
    have "map_of (foldl (\<lambda>counts p. if P p then bump counts (key p) else counts) (bump acc (key p)) ps) x =
     (case map_of (bump acc (key p)) x of
        Some v \<Rightarrow> Some (Count (numberOf v + int (length (filter (\<lambda>p. P p \<and> key p = x) ps))))
      | None \<Rightarrow> (if \<exists>p \<in> set ps. P p \<and> key p = x
                 then Some (Count (int (length (filter (\<lambda>p. P p \<and> key p = x) ps)))) else None))"
      by (intro Cons.IH) simp_all
    with True show ?thesis
      by (auto simp: map_of_bump [OF Cons.prems(1) ordinary] filter_empty_conv split: option.splits)
  qed
qed

subsection \<open>Keys and entries of the count mappings\<close>


lemma subTopics_fold:
  assumes "t \<noteq> []"
  shows "subTopics ps (Some t) =
     foldl (\<lambda>counts p. if topic p = t \<and> subTopic p \<noteq> None \<and> subTopic p \<noteq> Some []
                         then bump counts (the (subTopic p)) else counts) [] ps"
proof -
  have "foldl (\<lambda>counts p. case subTopic p of
                    Some st \<Rightarrow> if topic p = t \<and> st \<noteq> [] then bump counts st else counts
                  | None \<Rightarrow> counts) [] ps
        = foldl (\<lambda>counts p. if topic p = t \<and> subTopic p \<noteq> None \<and> subTopic p \<noteq> Some []
                         then bump counts (the (subTopic p)) else counts) [] ps"
    by (rule foldl_cong) (auto split: option.splits)
  with assms show ?thesis unfolding subTopics_def by simp
qed




section \<open>The cascade of the selection\<close>






section \<open>The upgrade of stored records\<close>

text \<open>
  C8. On load, a record whose topic is missing (absent or empty) gets as topic its
  first tag when it has one, and the fixed label otherwise; a topic that is there
  stays; absent tags become the empty list and tags that are there stay; the other
  fields are copied. The upgrade is idempotent, and a record that has a topic and
  has tags is not changed.
\<close>

theorem migrate_upgrade:
  "((topic_of p = None \<or> topic_of p = Some []) \<longrightarrow>
       (\<forall>x xs. tags_of p = Some (x # xs) \<longrightarrow> topic_of (migrate p) = Some x) \<and>
       (tags_of p = None \<or> tags_of p = Some [] \<longrightarrow> topic_of (migrate p) = Some ''Biology''))
   \<and> (\<forall>t. topic_of p = Some t \<and> t \<noteq> [] \<longrightarrow> topic_of (migrate p) = Some t)
   \<and> (tags_of p = None \<longrightarrow> tags_of (migrate p) = Some [])
   \<and> (\<forall>ts. tags_of p = Some ts \<longrightarrow> tags_of (migrate p) = Some ts)
   \<and> rest_of (migrate p) = rest_of p
   \<and> migrate (migrate p) = migrate p
   \<and> (\<forall>t ts. topic_of p = Some t \<and> t \<noteq> [] \<and> tags_of p = Some ts \<longrightarrow> migrate p = p)"
proof -
  obtain t g r where p: "p = Stored t g r" by (cases p)
  have missing: "(topic_of p = None \<or> topic_of p = Some []) \<longrightarrow>
       (\<forall>x xs. tags_of p = Some (x # xs) \<longrightarrow> topic_of (migrate p) = Some x) \<and>
       (tags_of p = None \<or> tags_of p = Some [] \<longrightarrow> topic_of (migrate p) = Some ''Biology'')"
    by (auto simp: p migrate_def)
  have present: "\<forall>t. topic_of p = Some t \<and> t \<noteq> [] \<longrightarrow> topic_of (migrate p) = Some t"
    by (simp add: p migrate_def)
  have tags: "(tags_of p = None \<longrightarrow> tags_of (migrate p) = Some [])
      \<and> (\<forall>ts. tags_of p = Some ts \<longrightarrow> tags_of (migrate p) = Some ts)
      \<and> rest_of (migrate p) = rest_of p"
    by (simp add: p migrate_def)
  have idem: "migrate (migrate p) = migrate p"
    by (cases t; cases g) (auto simp: p migrate_def split: list.splits)
  have conform: "\<forall>t ts. topic_of p = Some t \<and> t \<noteq> [] \<and> tags_of p = Some ts \<longrightarrow> migrate p = p"
    by (auto simp: p migrate_def)
  from missing present tags idem conform show ?thesis by blast
qed

theorem migrate_upgrade_witness:
  "migrate (Stored None (Some [''fMRI'', ''memory'']) ''rest'') = Stored (Some ''fMRI'') (Some [''fMRI'', ''memory'']) ''rest''
   \<and> migrate (Stored None None ''rest'') = Stored (Some ''Biology'') (Some []) ''rest''
   \<and> migrate (Stored (Some ''Genetics'') (Some [''x'']) ''rest'') = Stored (Some ''Genetics'') (Some [''x'']) ''rest''
   \<and> migrate (migrate (Stored (Some []) None ''rest'')) = migrate (Stored (Some []) None ''rest'')"
proof -
  let ?a = "Stored None (Some [''fMRI'', ''memory'']) ''rest''"
  let ?b = "Stored None None ''rest'' :: string stored"
  let ?c = "Stored (Some ''Genetics'') (Some [''x'']) ''rest''"
  let ?d = "Stored (Some []) None ''rest'' :: string stored"
  from migrate_upgrade [of ?a]
  have "topic_of (migrate ?a) = Some ''fMRI''" "tags_of (migrate ?a) = Some [''fMRI'', ''memory'']"
       "rest_of (migrate ?a) = ''rest''"
    by simp_all
  then have a: "migrate ?a = Stored (Some ''fMRI'') (Some [''fMRI'', ''memory'']) ''rest''"
    by (cases "migrate ?a") simp
  from migrate_upgrade [of ?b]
  have "topic_of (migrate ?b) = Some ''Biology''" "tags_of (migrate ?b) = Some []"
       "rest_of (migrate ?b) = ''rest''"
    by simp_all
  then have b: "migrate ?b = Stored (Some ''Biology'') (Some []) ''rest''"
    by (cases "migrate ?b") simp
  from migrate_upgrade [of ?c] have c: "migrate ?c = ?c" by simp
  from migrate_upgrade [of ?d] have d: "migrate (migrate ?d) = migrate ?d" by blast
  from a b c d show ?thesis by blast
qed

section \<open>The taxonomy counts\<close>

lemma numeric_topics:
  assumes "\<forall>p \<in> set ps. topic p \<notin> set inheritedNames"
  shows "numeric (topics ps)"
  unfolding topics_def using assms by (intro numeric_counting) (simp_all add: numeric_def)

lemma map_of_topics:
  assumes "\<forall>p \<in> set ps. topic p \<notin> set inheritedNames"
  shows "map_of (topics ps) t =
     (if t \<noteq> [] \<and> (\<exists>p \<in> set ps. topic p = t)
      then Some (Count (int (length (filter (\<lambda>p. topic p = t) ps)))) else None)"
proof -
  have start: "numeric []" by (simp add: numeric_def)
  from assms have ordinary: "\<forall>p \<in> set ps. topic p \<noteq> [] \<longrightarrow> topic p \<notin> set inheritedNames"
    by simp
  note counted = map_of_counting [OF start ordinary, of t, folded topics_def]
  show ?thesis
  proof (cases "t = []")
    case True
    with counted show ?thesis by simp
  next
    case False
    then have "filter (\<lambda>p. topic p \<noteq> [] \<and> topic p = t) ps = filter (\<lambda>p. topic p = t) ps"
      by (intro filter_cong) auto
    with False counted show ?thesis by auto
  qed
qed

lemma numeric_subTopics:
  assumes "\<forall>p \<in> set ps. \<forall>st. topic p = t \<and> subTopic p = Some st \<longrightarrow> st \<notin> set inheritedNames"
  shows "numeric (subTopics ps (Some t))"
proof (cases "t = []")
  case True
  then show ?thesis by (simp add: subTopics_def numeric_def)
next
  case False
  from assms have "\<forall>p \<in> set ps. topic p = t \<and> subTopic p \<noteq> None \<and> subTopic p \<noteq> Some []
      \<longrightarrow> the (subTopic p) \<notin> set inheritedNames"
    by auto
  then show ?thesis
    unfolding subTopics_fold [OF False] by (intro numeric_counting) (simp_all add: numeric_def)
qed

lemma map_of_subTopics:
  assumes "t \<noteq> []"
    and "\<forall>p \<in> set ps. \<forall>st. topic p = t \<and> subTopic p = Some st \<longrightarrow> st \<notin> set inheritedNames"
  shows "map_of (subTopics ps (Some t)) st =
     (if st \<noteq> [] \<and> (\<exists>p \<in> set ps. topic p = t \<and> subTopic p = Some st)
      then Some (Count (int (length (filter (\<lambda>p. topic p = t \<and> subTopic p = Some st) ps)))) else None)"
proof -
  have start: "numeric []" by (simp add: numeric_def)
  from assms(2) have ordinary: "\<forall>p \<in> set ps. topic p = t \<and> subTopic p \<noteq> None \<and> subTopic p \<noteq> Some []
      \<longrightarrow> the (subTopic p) \<notin> set inheritedNames"
    by auto
  note counted = map_of_counting [OF start ordinary, of st, folded subTopics_fold [OF assms(1)]]
  show ?thesis
  proof (cases "st = []")
    case True
    with counted show ?thesis by auto
  next
    case False
    then have "filter (\<lambda>p. (topic p = t \<and> subTopic p \<noteq> None \<and> subTopic p \<noteq> Some []) \<and> the (subTopic p) = st) ps
           = filter (\<lambda>p. topic p = t \<and> subTopic p = Some st) ps"
      by (intro filter_cong) auto
    with False counted show ?thesis by auto
  qed
qed

lemma distinct_topics: "distinct (map fst (topics ps))"
  unfolding topics_def by (rule distinct_counting) simp

lemma distinct_subTopics: "distinct (map fst (subTopics ps sel))"
proof (cases "\<exists>t. sel = Some t \<and> t \<noteq> []")
  case True
  then obtain t where "sel = Some t" "t \<noteq> []" by blast
  then show ?thesis
    unfolding \<open>sel = Some t\<close> subTopics_fold [OF \<open>t \<noteq> []\<close>] by (intro distinct_counting) simp
next
  case False
  then show ?thesis by (cases sel) (auto simp: subTopics_def)
qed

lemma sorted_numeric:
  assumes "numeric tc"
  shows "sorted_wrt (\<lambda>a b. \<exists>x y. snd a = Count x \<and> snd b = Count y \<and> y \<le> x)
           (Array_sort byCountDesc (Object_entries tc))"
proof -
  let ?es = "Object_entries tc"
  have "set ?es = set tc"
    using mset_Object_entries [of tc] by (rule mset_eq_setD)
  with assms have entries: "\<forall>e \<in> set ?es. snd e = Count (numberOf (snd e))"
    by (simp add: numeric_def list_all_iff)
  have "\<forall>a \<in> set ?es. \<forall>b \<in> set ?es. byCountDesc a b = numberOf (snd b) - numberOf (snd a)"
  proof (intro ballI)
    fix a b assume "a \<in> set ?es" "b \<in> set ?es"
    with entries have "snd a = Count (numberOf (snd a))" "snd b = Count (numberOf (snd b))"
      by blast+
    then obtain x y where "snd a = Count x" "snd b = Count y"
      by blast
    then show "byCountDesc a b = numberOf (snd b) - numberOf (snd a)"
      by (simp add: byCountDesc_def)
  qed
  then have sorted: "sorted_wrt (\<lambda>a b. numberOf (snd b) \<le> numberOf (snd a)) (Array_sort byCountDesc ?es)"
    by (rule sorted_desc_Array_sort_on)
  have "set (Array_sort byCountDesc ?es) = set ?es"
    using mset_Array_sort_any [of byCountDesc ?es] by (rule mset_eq_setD)
  with entries have "\<forall>e \<in> set (Array_sort byCountDesc ?es). snd e = Count (numberOf (snd e))"
    by simp
  with sorted show ?thesis
    by (elim sorted_wrt_mono_rel [rotated]) metis
qed

lemma mset_sortedTopics: "mset (sortedTopics tc) = mset tc"
  unfolding sortedTopics_def by (simp add: mset_Array_sort_any mset_Object_entries)

lemma mset_sortedSubTopics: "mset (sortedSubTopics sc) = mset sc"
  unfolding sortedSubTopics_def by (simp add: mset_Array_sort_any mset_Object_entries)

text \<open>
  Two papers, the first with the empty string as topic, the second with the topic
  \<^verbatim>\<open>constructor\<close>: the first gets no count, and the entry of the second is no number.
\<close>

theorem papers_not_counted:
  "topics [paper ''a'' ''T'' [] None [] 2, paper ''b'' ''U'' ''constructor'' None [] 1]
     = [(''constructor'', Garbled 1)]"
  by (simp add: topics_def bump_def inheritedFunctions_def)

text \<open>
  C3, as the code has it, for labels that are not names of inherited properties. If
  no topic of the collection is such a name, the topic counts have one entry per key;
  a non-empty topic is mapped to the number of papers that have it, one per paper, and
  a topic no paper has is absent, as is the empty topic; the list shown to the caller
  has the entries of the mapping, in descending order of count. The sub-topic counts
  are empty when no topic, or the empty topic, is selected; under a selected topic,
  if no sub-topic of a paper with that topic is such a name, a non-empty sub-topic is
  mapped to the number of papers with that topic and that sub-topic, and is absent
  when there is none, and the list shown is again in descending order of count.
\<close>

theorem taxonomy_counts:
  "((\<forall>p \<in> set ps. topic p \<notin> set inheritedNames) \<longrightarrow>
       distinct (map fst (topics ps))
     \<and> map_of (topics ps) t =
         (if t \<noteq> [] \<and> (\<exists>p \<in> set ps. topic p = t)
          then Some (Count (int (length (filter (\<lambda>p. topic p = t) ps)))) else None)
     \<and> mset (sortedTopics (topics ps)) = mset (topics ps)
     \<and> sorted_wrt (\<lambda>a b. \<exists>x y. snd a = Count x \<and> snd b = Count y \<and> y \<le> x)
           (sortedTopics (topics ps)))
   \<and> subTopics ps None = [] \<and> subTopics ps (Some []) = []
   \<and> (t \<noteq> [] \<and>
       (\<forall>p \<in> set ps. \<forall>st. topic p = t \<and> subTopic p = Some st \<longrightarrow> st \<notin> set inheritedNames) \<longrightarrow>
       distinct (map fst (subTopics ps (Some t)))
     \<and> map_of (subTopics ps (Some t)) st =
          (if st \<noteq> [] \<and> (\<exists>p \<in> set ps. topic p = t \<and> subTopic p = Some st)
           then Some (Count (int (length (filter (\<lambda>p. topic p = t \<and> subTopic p = Some st) ps)))) else None)
     \<and> mset (sortedSubTopics (subTopics ps (Some t))) = mset (subTopics ps (Some t))
     \<and> sorted_wrt (\<lambda>a b. \<exists>x y. snd a = Count x \<and> snd b = Count y \<and> y \<le> x)
           (sortedSubTopics (subTopics ps (Some t))))"
proof -
  have none: "subTopics ps None = [] \<and> subTopics ps (Some []) = []"
    by (simp add: subTopics_def)
  have shownTopics: "sorted_wrt (\<lambda>a b. \<exists>x y. snd a = Count x \<and> snd b = Count y \<and> y \<le> x)
           (sortedTopics (topics ps))"
    if "\<forall>p \<in> set ps. topic p \<notin> set inheritedNames"
    unfolding sortedTopics_def using numeric_topics [OF that] by (rule sorted_numeric)
  have shownSubTopics: "sorted_wrt (\<lambda>a b. \<exists>x y. snd a = Count x \<and> snd b = Count y \<and> y \<le> x)
           (sortedSubTopics (subTopics ps (Some t)))"
    if "\<forall>p \<in> set ps. \<forall>st. topic p = t \<and> subTopic p = Some st \<longrightarrow> st \<notin> set inheritedNames"
    unfolding sortedSubTopics_def using numeric_subTopics [OF that] by (rule sorted_numeric)
  from none distinct_topics [of ps] map_of_topics [of ps t] mset_sortedTopics [of "topics ps"] shownTopics
    distinct_subTopics [of ps "Some t"] map_of_subTopics [of t ps st]
    mset_sortedSubTopics [of "subTopics ps (Some t)"] shownSubTopics
  show ?thesis by blast
qed

theorem taxonomy_counts_witness:
  "map_of (topics [paper ''1'' ''P'' ''A'' (Some ''x'') [] 3, paper ''2'' ''Q'' ''A'' None [] 2,
                   paper ''3'' ''R'' ''B'' (Some ''y'') [] 1]) ''A'' = Some (Count 2)
   \<and> map_of (subTopics [paper ''1'' ''P'' ''A'' (Some ''x'') [] 3, paper ''2'' ''Q'' ''A'' None [] 2,
                   paper ''3'' ''R'' ''B'' (Some ''y'') [] 1] (Some ''A'')) ''x'' = Some (Count 1)
   \<and> map_of (subTopics [paper ''1'' ''P'' ''A'' (Some ''x'') [] 3, paper ''2'' ''Q'' ''A'' None [] 2,
                   paper ''3'' ''R'' ''B'' (Some ''y'') [] 1] (Some ''A'')) ''y'' = None
   \<and> sortedTopics (topics [paper ''1'' ''P'' ''B'' (Some ''x'') [] 3, paper ''2'' ''Q'' ''A'' None [] 2,
                   paper ''3'' ''R'' ''A'' (Some ''y'') [] 1]) = [(''A'', Count 2), (''B'', Count 1)]
   \<and> sorted_wrt (\<lambda>a b. \<exists>x y. snd a = Count x \<and> snd b = Count y \<and> y \<le> x)
        (sortedTopics (topics [paper ''1'' ''P'' ''B'' (Some ''x'') [] 3, paper ''2'' ''Q'' ''A'' None [] 2,
                   paper ''3'' ''R'' ''A'' (Some ''y'') [] 1]))"
proof -
  let ?ps = "[paper ''1'' ''P'' ''A'' (Some ''x'') [] 3, paper ''2'' ''Q'' ''A'' None [] 2,
              paper ''3'' ''R'' ''B'' (Some ''y'') [] 1]"
  let ?qs = "[paper ''1'' ''P'' ''B'' (Some ''x'') [] 3, paper ''2'' ''Q'' ''A'' None [] 2,
              paper ''3'' ''R'' ''A'' (Some ''y'') [] 1]"
  have topicsP: "\<forall>p \<in> set ?ps. topic p \<notin> set inheritedNames"
    and topicsQ: "\<forall>p \<in> set ?qs. topic p \<notin> set inheritedNames"
    and subsP: "\<forall>p \<in> set ?ps. \<forall>st. topic p = ''A'' \<and> subTopic p = Some st \<longrightarrow> st \<notin> set inheritedNames"
    by (simp_all add: inheritedNames_def inheritedFunctions_def)
  from taxonomy_counts [of ?ps "''A''" "''x''"] topicsP subsP
  have a: "map_of (topics ?ps) ''A'' = Some (Count 2)"
    and x: "map_of (subTopics ?ps (Some ''A'')) ''x'' = Some (Count 1)"
    by simp_all
  from taxonomy_counts [of ?ps "''A''" "''y''"] subsP
  have y: "map_of (subTopics ?ps (Some ''A'')) ''y'' = None"
    by simp
  have shown: "sortedTopics (topics ?qs) = [(''A'', Count 2), (''B'', Count 1)]"
    by (simp add: sortedTopics_def topics_def bump_def inheritedFunctions_def Object_entries_def
        isArrayIndex_def isDigit_def Array_sort_def byCountDesc_def)
  from taxonomy_counts [of ?qs "[]" "[]"] topicsQ
  have s: "sorted_wrt (\<lambda>a b. \<exists>x y. snd a = Count x \<and> snd b = Count y \<and> y \<le> x)
        (sortedTopics (topics ?qs))"
    by blast
  from a x y shown s show ?thesis by blast
qed

section \<open>The filtered view\<close>

lemma str_includes_iff: "str_includes s q \<longleftrightarrow> (\<exists>a b. s = a @ q @ b)"
proof -
  have "str_includes s q \<longleftrightarrow> sublist q s"
    by (induction s) (simp_all add: sublist_Cons_right)
  then show ?thesis by (simp add: sublist_def)
qed

lemma includes_lower_iff:
  "str_includes (toLowerCase x) (toLowerCase q) \<longleftrightarrow> containsIgnoringCase x q"
  by (simp add: str_includes_iff containsIgnoringCase_def)

lemma lower_query_nonempty: "q \<noteq> [] \<Longrightarrow> \<not> containsIgnoringCase [] q"
  by (simp add: containsIgnoringCase_def toLowerCase_def)

lemma matches_iff:
  "(matchesTopic s p \<and> matchesSubTopic s p \<and> matchesTag s p \<and> matchesSearch s p)
     \<longleftrightarrow> satisfiesSelection s p"
proof -
  have t: "matchesTopic s p \<longleftrightarrow> (axisActive (selectedTopic s) \<longrightarrow> Some (topic p) = selectedTopic s)"
    by (auto simp: matchesTopic_def axisActive_def split: option.splits)
  have st: "matchesSubTopic s p \<longleftrightarrow> (axisActive (selectedSubTopic s) \<longrightarrow> subTopic p = selectedSubTopic s)"
    by (auto simp: matchesSubTopic_def axisActive_def split: option.splits)
  have tg: "matchesTag s p \<longleftrightarrow> (axisActive (selectedTag s) \<longrightarrow> (\<exists>tg \<in> set (tags p). Some tg = selectedTag s))"
    by (auto simp: matchesTag_def axisActive_def split: option.splits)
  have sub: "(case subTopic p of
           Some st \<Rightarrow> st \<noteq> [] \<and> str_includes (toLowerCase st) (toLowerCase (searchQuery s))
         | None \<Rightarrow> False) \<longleftrightarrow> (\<exists>st. subTopic p = Some st \<and> containsIgnoringCase st (searchQuery s))"
    if "searchQuery s \<noteq> []"
    using lower_query_nonempty [OF that]
    by (auto simp: includes_lower_iff split: option.splits)
  have q: "matchesSearch s p \<longleftrightarrow> (searchQuery s \<noteq> [] \<longrightarrow>
         containsIgnoringCase (title p) (searchQuery s) \<or>
         (\<exists>a \<in> set (authors p). containsIgnoringCase a (searchQuery s)) \<or>
         (\<exists>tg \<in> set (tags p). containsIgnoringCase tg (searchQuery s)) \<or>
         containsIgnoringCase (topic p) (searchQuery s) \<or>
         (\<exists>st. subTopic p = Some st \<and> containsIgnoringCase st (searchQuery s)))"
  proof (cases "searchQuery s = []")
    case True
    then show ?thesis by (simp add: matchesSearch_def)
  next
    case False
    then show ?thesis
      unfolding matchesSearch_def sub [OF False]
      by (simp add: includes_lower_iff list_ex_iff)
  qed
  show ?thesis unfolding t st tg q satisfiesSelection_def by blast
qed

lemma filteredPapers_eq:
  "filteredPapers s = Array_sort newestFirst (filter (satisfiesSelection s) (papers s))"
  by (simp add: filteredPapers_def matches_iff)

text \<open>
  A click on a tag that is the empty string selects it; the view then still holds every
  paper, also one that has no such tag.
\<close>

theorem empty_tag_selects_everything:
  "reachable \<lparr>papers = [paper ''1'' ''P'' ''A'' None [[]] 2, paper ''2'' ''Q'' ''B'' None [''x''] 1],
              selectedTopic = None, selectedSubTopic = None, selectedTag = Some [], searchQuery = []\<rparr>
   \<and> filteredPapers \<lparr>papers = [paper ''1'' ''P'' ''A'' None [[]] 2, paper ''2'' ''Q'' ''B'' None [''x''] 1],
              selectedTopic = None, selectedSubTopic = None, selectedTag = Some [], searchQuery = []\<rparr>
       = [paper ''1'' ''P'' ''A'' None [[]] 2, paper ''2'' ''Q'' ''B'' None [''x''] 1]
   \<and> [] \<notin> set (tags (paper ''2'' ''Q'' ''B'' None [''x''] 1))"
proof -
  let ?ps = "[paper ''1'' ''P'' ''A'' None [[]] 2, paper ''2'' ''Q'' ''B'' None [''x''] 1]"
  let ?shown = "\<lparr>papers = ?ps, selectedTopic = None, selectedSubTopic = None, selectedTag = Some [],
                 searchQuery = []\<rparr>"
  have all: "filteredPapers (initial ?ps) = ?ps"
    by (simp add: initial_def filteredPapers_def matchesTopic_def matchesSubTopic_def matchesTag_def
        matchesSearch_def Array_sort_def newestFirst_def)
  have card: "paper ''1'' ''P'' ''A'' None [[]] 2 \<in> set (filteredPapers (initial ?ps))"
    unfolding all by simp
  have tag: "[] \<in> set (tags (paper ''1'' ''P'' ''A'' None [[]] 2))"
    by simp
  from card tag have "step (initial ?ps) (handleTagClick [] (initial ?ps))"
    by (rule step.tagClick)
  with reachable.start have "reachable (handleTagClick [] (initial ?ps))"
    by (rule reachable.later)
  moreover have "handleTagClick [] (initial ?ps) = ?shown"
    by (simp add: handleTagClick_def initial_def)
  ultimately have reach: "reachable ?shown" by (simp only:)
  have view: "filteredPapers ?shown = ?ps"
    by (simp add: filteredPapers_def matchesTopic_def matchesSubTopic_def matchesTag_def
        matchesSearch_def Array_sort_def newestFirst_def)
  from reach view show ?thesis by simp
qed

text \<open>
  C2, as the code has it. The filtered view holds exactly the papers of the collection
  that satisfy every active axis of the selection, each as often as the collection
  holds it; an axis is active when its label is selected and is not the empty string.
  On an active axis the selected topic equals the paper's, the selected sub-topic
  equals the paper's, the selected tag is one of the paper's, and a non-empty search
  text occurs, ignoring case, in the title, in an author, in a tag, in the topic or in
  the sub-topic if there is one. The view is in descending order of creation time, and
  papers of equal creation time keep the order they have in the collection, where
  \<^const>\<open>handleAddPaper\<close> puts each new paper in front.
\<close>

theorem filteredPapers_spec:
  "set (filteredPapers s) = {p \<in> set (papers s). satisfiesSelection s p}
   \<and> mset (filteredPapers s) = filter_mset (satisfiesSelection s) (mset (papers s))
   \<and> sorted_wrt (\<lambda>a b. addedAt b \<le> addedAt a) (filteredPapers s)
   \<and> filter (\<lambda>p. addedAt p = stamp) (filteredPapers s)
       = filter (\<lambda>p. addedAt p = stamp) (filter (satisfiesSelection s) (papers s))"
proof -
  have cmp: "\<And>a b. newestFirst a b = addedAt b - addedAt a"
    by (simp add: newestFirst_def)
  have exactly: "mset (filteredPapers s) = filter_mset (satisfiesSelection s) (mset (papers s))"
    by (simp add: filteredPapers_eq mset_Array_sort [OF cmp])
  have newest: "sorted_wrt (\<lambda>a b. addedAt b \<le> addedAt a) (filteredPapers s)"
    unfolding filteredPapers_eq by (rule sorted_desc_Array_sort [OF cmp])
  have ties: "filter (\<lambda>p. addedAt p = stamp) (filteredPapers s)
       = filter (\<lambda>p. addedAt p = stamp) (filter (satisfiesSelection s) (papers s))"
    unfolding filteredPapers_eq by (rule stable_Array_sort [OF cmp])
  from exactly have "set_mset (mset (filteredPapers s))
      = set_mset (filter_mset (satisfiesSelection s) (mset (papers s)))"
    by (rule arg_cong)
  then have members: "set (filteredPapers s) = {p \<in> set (papers s). satisfiesSelection s p}"
    by (simp only: set_mset_mset set_mset_filter)
  from members exactly newest ties show ?thesis by blast
qed


theorem filteredPapers_spec_witness:
  "filteredPapers \<lparr>papers = [paper ''1'' ''P'' ''A'' None [] 1, paper ''2'' ''Q'' ''B'' None [] 2,
                             paper ''3'' ''R'' ''A'' None [] 3],
                   selectedTopic = None, selectedSubTopic = None, selectedTag = None, searchQuery = []\<rparr>
     = [paper ''3'' ''R'' ''A'' None [] 3, paper ''2'' ''Q'' ''B'' None [] 2, paper ''1'' ''P'' ''A'' None [] 1]
   \<and> filteredPapers \<lparr>papers = [paper ''1'' ''Attention'' ''A'' None [''neuroscience''] 5,
                               paper ''2'' ''Q'' ''B'' None [''memory''] 7,
                               paper ''3'' ''R'' ''C'' None [''fMRI'', ''neuroscience''] 5],
                   selectedTopic = None, selectedSubTopic = None, selectedTag = Some ''neuroscience'',
                   searchQuery = []\<rparr>
     = [paper ''1'' ''Attention'' ''A'' None [''neuroscience''] 5, paper ''3'' ''R'' ''C'' None [''fMRI'', ''neuroscience''] 5]
   \<and> satisfiesSelection \<lparr>papers = [paper ''1'' ''Attention'' ''A'' None [''neuroscience''] 5,
                               paper ''2'' ''Q'' ''B'' None [''memory''] 7,
                               paper ''3'' ''R'' ''C'' None [''fMRI'', ''neuroscience''] 5],
                   selectedTopic = None, selectedSubTopic = None, selectedTag = Some ''neuroscience'',
                   searchQuery = []\<rparr> (paper ''3'' ''R'' ''C'' None [''fMRI'', ''neuroscience''] 5)
   \<and> filteredPapers \<lparr>papers = [paper ''1'' ''Attention'' ''A'' None [''neuroscience''] 5,
                               paper ''2'' ''Q'' ''B'' None [''memory''] 7],
                   selectedTopic = None, selectedSubTopic = None, selectedTag = None,
                   searchQuery = ''aTT''\<rparr>
     = [paper ''1'' ''Attention'' ''A'' None [''neuroscience''] 5]
   \<and> sorted_wrt (\<lambda>a b. addedAt b \<le> addedAt a)
        (filteredPapers \<lparr>papers = [paper ''1'' ''P'' ''A'' None [] 1, paper ''2'' ''Q'' ''B'' None [] 2,
                             paper ''3'' ''R'' ''A'' None [] 3],
                   selectedTopic = None, selectedSubTopic = None, selectedTag = None, searchQuery = []\<rparr>)"
proof -
  let ?all = "\<lparr>papers = [paper ''1'' ''P'' ''A'' None [] 1, paper ''2'' ''Q'' ''B'' None [] 2,
                             paper ''3'' ''R'' ''A'' None [] 3],
                   selectedTopic = None, selectedSubTopic = None, selectedTag = None, searchQuery = []\<rparr>"
  let ?tagged = "\<lparr>papers = [paper ''1'' ''Attention'' ''A'' None [''neuroscience''] 5,
                               paper ''2'' ''Q'' ''B'' None [''memory''] 7,
                               paper ''3'' ''R'' ''C'' None [''fMRI'', ''neuroscience''] 5],
                   selectedTopic = None, selectedSubTopic = None, selectedTag = Some ''neuroscience'',
                   searchQuery = []\<rparr>"
  let ?searched = "\<lparr>papers = [paper ''1'' ''Attention'' ''A'' None [''neuroscience''] 5,
                               paper ''2'' ''Q'' ''B'' None [''memory''] 7],
                   selectedTopic = None, selectedSubTopic = None, selectedTag = None,
                   searchQuery = ''aTT''\<rparr>"
  have newest: "filteredPapers ?all
     = [paper ''3'' ''R'' ''A'' None [] 3, paper ''2'' ''Q'' ''B'' None [] 2, paper ''1'' ''P'' ''A'' None [] 1]"
    by (simp add: filteredPapers_def matchesTopic_def matchesSubTopic_def matchesTag_def
        matchesSearch_def Array_sort_def newestFirst_def)
  have tag: "filteredPapers ?tagged
     = [paper ''1'' ''Attention'' ''A'' None [''neuroscience''] 5, paper ''3'' ''R'' ''C'' None [''fMRI'', ''neuroscience''] 5]"
    by (simp add: filteredPapers_def matchesTopic_def matchesSubTopic_def matchesTag_def
        matchesSearch_def Array_sort_def newestFirst_def)
  have found: "filteredPapers ?searched = [paper ''1'' ''Attention'' ''A'' None [''neuroscience''] 5]"
    by (simp add: filteredPapers_def matchesTopic_def matchesSubTopic_def matchesTag_def
        matchesSearch_def Array_sort_def newestFirst_def toLowerCase_def lowerChar_def char_of_def)
  have "paper ''3'' ''R'' ''C'' None [''fMRI'', ''neuroscience''] 5 \<in> set (filteredPapers ?tagged)"
    unfolding tag by simp
  with filteredPapers_spec [of ?tagged 0]
  have sat: "satisfiesSelection ?tagged (paper ''3'' ''R'' ''C'' None [''fMRI'', ''neuroscience''] 5)"
    by blast
  from filteredPapers_spec [of ?all 0]
  have sorted: "sorted_wrt (\<lambda>a b. addedAt b \<le> addedAt a) (filteredPapers ?all)"
    by blast
  from newest tag sat found sorted show ?thesis by blast
qed

section \<open>The duplicate guard\<close>

lemma duplicate_message_renders: "rendersAsDuplicate ''This paper already exists in your bookshelf''"
  by code_simp

lemma example_titles_collide:
  "trim (toLowerCase ''  attention is all you need '') = trim (toLowerCase ''Attention Is All You Need'')"
  by code_simp

lemma example_titles_differ:
  "trim (toLowerCase ''  attention is all you need '') \<noteq> trim (toLowerCase ''Deep Residual Learning'')"
  by code_simp

lemma str_includes_sublist: "str_includes s q \<longleftrightarrow> sublist q s"
  by (auto simp: str_includes_iff sublist_def)

lemma sublist_around_char:
  assumes "sublist w (X @ c # Y)" and "c \<notin> set w"
  shows "sublist w X \<or> sublist w Y"
proof -
  from assms(1) obtain a b where eq: "X @ c # Y = a @ w @ b" by (auto simp: sublist_def)
  then consider us where "X = a @ us" "us @ c # Y = w @ b" | us where "X @ us = a" "c # Y = us @ w @ b"
    by (auto simp: append_eq_append_conv2)
  then show ?thesis
  proof cases
    case 1
    from 1(2) consider vs where "us = w @ vs" | vs where "us @ vs = w" "c # Y = vs @ b"
      by (auto simp: append_eq_append_conv2)
    then show ?thesis
    proof cases
      case 1
      with \<open>X = a @ us\<close> show ?thesis by (auto simp: sublist_def)
    next
      case 2
      show ?thesis
      proof (cases vs)
        case Nil
        with 2 \<open>X = a @ us\<close> have "X = a @ w @ []" by simp
        then show ?thesis unfolding sublist_def by blast
      next
        case (Cons v vs')
        with 2 have "c \<in> set w" by auto
        with assms(2) show ?thesis by simp
      qed
    qed
  next
    case 2
    show ?thesis
    proof (cases us)
      case Nil
      with 2(2) have "c # Y = w @ b" by simp
      with assms(2) have "w = []" by (cases w) auto
      then show ?thesis by simp
    next
      case (Cons u us')
      with 2(2) have "Y = us' @ w @ b" by simp
      then show ?thesis unfolding sublist_def by blast
    qed
  qed
qed

text \<open>
  A message built from the template of a blocked response has the words only if the
  reason has them: the words have neither a colon nor a closing parenthesis, and do not
  begin with a blank.
\<close>

lemma blocked_template:
  assumes "rendersAsDuplicate (''The AI service blocked the response (Reason: '' @ r @ CHR '')'' # rest)"
    and "\<not> rendersAsDuplicate rest"
  shows "str_includes r ''already exists''"
proof -
  let ?w = "''already exists''"
  have shape: "''The AI service blocked the response (Reason: '' @ r @ CHR '')'' # rest
      = ''The AI service blocked the response (Reason'' @ CHR '':'' # ((CHR '' '' # r) @ CHR '')'' # rest)"
    by simp
  have colon: "CHR '':'' \<notin> set ?w" and paren: "CHR '')'' \<notin> set ?w" by simp_all
  have head: "\<not> sublist ?w ''The AI service blocked the response (Reason''"
  proof -
    have "\<not> str_includes ''The AI service blocked the response (Reason'' ?w" by code_simp
    then show ?thesis by (metis str_includes_sublist)
  qed
  from assms(1) have "sublist ?w (''The AI service blocked the response (Reason'' @ CHR '':'' # ((CHR '' '' # r) @ CHR '')'' # rest))"
    by (simp only: rendersAsDuplicate_def str_includes_sublist shape)
  from sublist_around_char [OF this colon] head
  have "sublist ?w ((CHR '' '' # r) @ CHR '')'' # rest)" by blast
  from sublist_around_char [OF this paren] assms(2)
  have "sublist ?w (CHR '' '' # r)"
    by (auto simp only: rendersAsDuplicate_def str_includes_sublist)
  then have "sublist ?w r" by (simp add: sublist_Cons_right)
  then show ?thesis by (simp only: str_includes_sublist)
qed

lemma fixed_messages:
  "\<not> rendersAsDuplicate ''API Key not found in environment variables''"
  "\<not> rendersAsDuplicate ''The AI service blocked the response due to copyright (RECITATION). The paper's text might be protected. Please try adding the paper via PDF upload instead.''"
  "\<not> rendersAsDuplicate ''. The paper might be behind a strict paywall or triggered sensitive content filters.''"
  "\<not> rendersAsDuplicate ''The AI service returned an empty response. Please check if the URL is accessible and points to a valid paper.''"
  "\<not> rendersAsDuplicate ''Failed to analyze paper. Please check the URL or try again.''"
  "\<not> rendersAsDuplicate ''.''"
  "\<not> rendersAsDuplicate ''The AI service returned an empty response for the PDF.''"
  "\<not> rendersAsDuplicate ''PDF file is too large. Please try a smaller file (under 10MB).''"
  "\<not> rendersAsDuplicate ''AI response parsing failed. Please try again.''"
  "\<not> rendersAsDuplicate ''Failed to analyze PDF.''"
  "\<not> rendersAsDuplicate ''No response received from AI service.''"
  "\<not> rendersAsDuplicate ''Failed to parse AI response. The model did not return valid JSON.''"
  "\<not> rendersAsDuplicate ''Please enter a URL''"
  "\<not> rendersAsDuplicate ''Please enter a DOI''"
  "\<not> rendersAsDuplicate ''Please select a PDF file''"
  "\<not> rendersAsDuplicate ''Failed to retrieve metadata''"
  "\<not> rendersAsDuplicate ''Failed to analyze paper''"
  by code_simp+

lemma parseResponse_failure:
  assumes "snd (parseResponse JSON_parse text) = Inl e"
  shows "\<not> rendersAsDuplicate (message e)"
proof -
  from assms have "message e = ''No response received from AI service.'' \<or>
      message e = ''Failed to parse AI response. The model did not return valid JSON.''"
    by (auto simp: parseResponse_def split: option.splits if_splits prod.splits sum.splits)
  with fixed_messages(11,12) show ?thesis by metis
qed

lemma urlAttempt_failure:
  assumes "urlAttempt JSON_parse generated = Inl e" and "rendersAsDuplicate (message e)"
  shows "serviceSaysAlreadyExists generated"
proof (cases generated)
  case (Threw thrown)
  with assms show ?thesis
    by (simp add: urlAttempt_def serviceSaysAlreadyExists_def rendersAsDuplicate_def)
next
  case (Returned response)
  show ?thesis
  proof (cases "responseText response = None \<or> responseText response = Some []")
    case False
    with Returned assms(1) have "snd (parseResponse JSON_parse (responseText response)) = Inl e"
      by (simp add: urlAttempt_def)
    from parseResponse_failure [OF this] assms(2) show ?thesis by simp
  next
    case True
    show ?thesis
    proof (cases "finishReasons response")
      case Nil
      with True Returned assms(1)
      have "message e = ''The AI service returned an empty response. Please check if the URL is accessible and points to a valid paper.''"
        by (auto simp: urlAttempt_def)
      with fixed_messages(4) assms(2) show ?thesis by metis
    next
      case (Cons reason others)
      from assms(1) Returned True Cons
      have "(if reason \<noteq> Some ''STOP''
             then (if reason = Some ''RECITATION''
                   then Inl (Error ''The AI service blocked the response due to copyright (RECITATION). The paper's text might be protected. Please try adding the paper via PDF upload instead.'')
                   else Inl (Error (''The AI service blocked the response (Reason: '' @ shownReason reason @
                          ''). The paper might be behind a strict paywall or triggered sensitive content filters.'')))
             else Inl (Error ''The AI service returned an empty response. Please check if the URL is accessible and points to a valid paper.''))
            = (Inl e :: error + json)"
        by (simp only: urlAttempt_def generated.case list.case if_True)
      then have stopped: "reason = Some ''STOP'' \<Longrightarrow> message e = ''The AI service returned an empty response. Please check if the URL is accessible and points to a valid paper.''"
        and recitation: "reason = Some ''RECITATION'' \<Longrightarrow> message e = ''The AI service blocked the response due to copyright (RECITATION). The paper's text might be protected. Please try adding the paper via PDF upload instead.''"
        and blocked: "reason \<noteq> Some ''STOP'' \<Longrightarrow> reason \<noteq> Some ''RECITATION'' \<Longrightarrow>
            message e = ''The AI service blocked the response (Reason: '' @ shownReason reason @
             CHR '')'' # ''. The paper might be behind a strict paywall or triggered sensitive content filters.''"
        by auto
      then consider "message e = ''The AI service returned an empty response. Please check if the URL is accessible and points to a valid paper.''"
        | "message e = ''The AI service blocked the response due to copyright (RECITATION). The paper's text might be protected. Please try adding the paper via PDF upload instead.''"
        | "message e = ''The AI service blocked the response (Reason: '' @ shownReason reason @
             CHR '')'' # ''. The paper might be behind a strict paywall or triggered sensitive content filters.''"
        by blast
      then show ?thesis
      proof cases
        case 1
        with fixed_messages(4) assms(2) show ?thesis by metis
      next
        case 2
        with fixed_messages(2) assms(2) show ?thesis by metis
      next
        case 3
        with assms(2)
        have "rendersAsDuplicate (''The AI service blocked the response (Reason: '' @ shownReason reason @
             CHR '')'' # ''. The paper might be behind a strict paywall or triggered sensitive content filters.'')"
          by (simp only:)
        from blocked_template [OF this fixed_messages(3)] Returned Cons show ?thesis
          by (simp add: serviceSaysAlreadyExists_def)
      qed
    qed
  qed
qed

lemma pdfAttempt_failure:
  assumes "pdfAttempt JSON_parse generated = Inl e" and "rendersAsDuplicate (message e)"
  shows "serviceSaysAlreadyExists generated"
proof (cases generated)
  case (Threw thrown)
  with assms show ?thesis
    by (simp add: pdfAttempt_def serviceSaysAlreadyExists_def rendersAsDuplicate_def)
next
  case (Returned response)
  show ?thesis
  proof (cases "responseText response = None \<or> responseText response = Some []")
    case False
    with Returned assms(1) have "snd (parseResponse JSON_parse (responseText response)) = Inl e"
      by (simp add: pdfAttempt_def split: sum.splits)
    from parseResponse_failure [OF this] assms(2) show ?thesis by simp
  next
    case True
    show ?thesis
    proof (cases "finishReasons response")
      case Nil
      with True Returned assms(1)
      have "message e = ''The AI service returned an empty response for the PDF.''"
        by (auto simp: pdfAttempt_def)
      with fixed_messages(7) assms(2) show ?thesis by metis
    next
      case (Cons reason others)
      from assms(1) Returned True Cons
      have "(if reason \<noteq> Some ''STOP''
             then Inl (Error (''The AI service blocked the response (Reason: '' @ shownReason reason @ '').''))
             else Inl (Error ''The AI service returned an empty response for the PDF.''))
            = (Inl e :: error + json \<times> json option)"
        by (simp only: pdfAttempt_def generated.case list.case if_True)
      then consider "message e = ''The AI service returned an empty response for the PDF.''"
        | "message e = ''The AI service blocked the response (Reason: '' @ shownReason reason @ CHR '')'' # ''.''"
        by (auto simp only: sum.inject error.sel split: if_splits)
      then show ?thesis
      proof cases
        case 1
        with fixed_messages(7) assms(2) show ?thesis by metis
      next
        case 2
        with assms(2)
        have "rendersAsDuplicate (''The AI service blocked the response (Reason: '' @ shownReason reason @ CHR '')'' # ''.'')"
          by (simp only:)
        from blocked_template [OF this fixed_messages(6)] Returned Cons show ?thesis
          by (simp add: serviceSaysAlreadyExists_def)
      qed
    qed
  qed
qed

lemma analyzePaperUrl_failure:
  assumes "analyzePaperUrl JSON_parse apiKey generated = Inl e" and "rendersAsDuplicate (message e)"
  shows "serviceSaysAlreadyExists generated"
proof (cases "apiKey = None \<or> apiKey = Some []")
  case True
  with assms(1) have "message e = ''API Key not found in environment variables''"
    by (auto simp: analyzePaperUrl_def)
  with fixed_messages(1) assms(2) show ?thesis by metis
next
  case False
  with assms(1) obtain thrown where thrown: "urlAttempt JSON_parse generated = Inl thrown"
    and shown: "message e = (if message thrown \<noteq> [] then message thrown
                     else ''Failed to analyze paper. Please check the URL or try again.'')"
    by (auto simp: analyzePaperUrl_def split: sum.splits)
  from shown fixed_messages(5) assms(2) have "rendersAsDuplicate (message thrown)"
    by (metis (full_types))
  with thrown show ?thesis by (rule urlAttempt_failure)
qed

lemma analyzePaperPdf_failure:
  assumes "analyzePaperPdf JSON_parse apiKey generated = Inl e" and "rendersAsDuplicate (message e)"
  shows "serviceSaysAlreadyExists generated"
proof (cases "apiKey = None \<or> apiKey = Some []")
  case True
  with assms(1) have "message e = ''API Key not found in environment variables''"
    by (auto simp: analyzePaperPdf_def)
  with fixed_messages(1) assms(2) show ?thesis by metis
next
  case False
  with assms(1) obtain thrown where thrown: "pdfAttempt JSON_parse generated = Inl thrown"
    and shown: "message e =
       (if str_includes (message thrown) ''413'' \<or> str_includes (message thrown) ''too large''
        then ''PDF file is too large. Please try a smaller file (under 10MB).''
        else if str_includes (message thrown) ''JSON''
        then ''AI response parsing failed. Please try again.''
        else if message thrown \<noteq> [] then message thrown
        else ''Failed to analyze PDF.'')"
    by (auto simp: analyzePaperPdf_def split: sum.splits)
  from shown fixed_messages(8,9,10) assms(2) have "rendersAsDuplicate (message thrown)"
    by (metis (full_types))
  with thrown show ?thesis by (rule pdfAttempt_failure)
qed

lemma inputCheck_failure:
  assumes "inputCheck mode inputValue fileSelected = Some e"
  shows "\<not> rendersAsDuplicate (message e)"
proof -
  from assms have "message e = ''Please enter a URL'' \<or> message e = ''Please enter a DOI'' \<or>
      message e = ''Please select a PDF file''"
    by (auto simp: inputCheck_def split: AddMode.splits if_splits)
  with fixed_messages(13,14,15) show ?thesis by metis
qed

lemma shown_failure:
  assumes "fst (handleSubmit ps paperUrl (Inl err) uuid now) = Some shown"
  shows "rendersAsDuplicate shown \<longleftrightarrow> rendersAsDuplicate (message err)"
proof (cases "message err = []")
  case True
  with assms have "shown = ''Failed to analyze paper''" by (simp add: handleSubmit_def)
  moreover from True have "\<not> rendersAsDuplicate (message err)"
    by (simp add: rendersAsDuplicate_def)
  ultimately show ?thesis using fixed_messages(17) by simp
next
  case False
  with assms show ?thesis by (simp add: handleSubmit_def)
qed

text \<open>
  The analysis of a locator passes on the message of an error that the call of the
  service threw, and the dialog shows it. When that message has the words "already
  exists", the dialog renders the failure as it renders a duplicate, although no title
  of the collection, here empty, collides.
\<close>

theorem service_error_renders_as_duplicate:
  "analyzePaperUrl (\<lambda>js. None) (Some ''key'') (Threw (Error ''Resource already exists''))
     = Inl (Error ''Resource already exists'')
   \<and> handleSubmit [] ''https://example.org/p'' (Inl (Error ''Resource already exists'')) ''1'' 0
     = (Some ''Resource already exists'', [])
   \<and> rendersAsDuplicate ''Resource already exists''"
proof -
  have "analyzePaperUrl (\<lambda>js. None) (Some ''key'') (Threw (Error ''Resource already exists''))
     = Inl (Error ''Resource already exists'')"
    by (simp add: analyzePaperUrl_def urlAttempt_def)
  moreover have "handleSubmit [] ''https://example.org/p'' (Inl (Error ''Resource already exists'')) ''1'' 0
     = (Some ''Resource already exists'', [])"
    by (simp add: handleSubmit_def)
  moreover have "rendersAsDuplicate ''Resource already exists''" by code_simp
  ultimately show ?thesis by blast
qed

text \<open>
  C4, as the code has it. A submission whose analysis has answered is rejected with the
  message that the paper already exists exactly when the title of some paper of the
  collection equals the candidate's after lower-casing and trimming. A rejected
  submission, like one that failed on the way, leaves the collection as it was; an
  admitted one shows no error and puts the new paper in front. The dialog recognises
  the rejection by the words "already exists", which the message has. Of the other
  failures, the one for no metadata and those of the input check and of the validation
  are never rendered so; an error thrown on the way is rendered so exactly when its
  message has the words; and a failure of the analysis of a locator or of a document
  is rendered so only when the text that the service itself supplied, the message of
  the error its call threw or the finish reason of its first candidate, has the words.
\<close>

theorem duplicate_guard:
  "(fst (handleSubmit ps paperUrl (Inr (Some m)) uuid now) = Some ''This paper already exists in your bookshelf'')
      = (\<exists>p \<in> set ps. trim (toLowerCase (title p)) = trim (toLowerCase (title m)))
   \<and> ((\<exists>p \<in> set ps. trim (toLowerCase (title p)) = trim (toLowerCase (title m))) \<longrightarrow>
        snd (handleSubmit ps paperUrl (Inr (Some m)) uuid now) = ps)
   \<and> (\<not> (\<exists>p \<in> set ps. trim (toLowerCase (title p)) = trim (toLowerCase (title m))) \<longrightarrow>
        fst (handleSubmit ps paperUrl (Inr (Some m)) uuid now) = None \<and>
        snd (handleSubmit ps paperUrl (Inr (Some m)) uuid now) =
          \<lparr>title = title m, summary = summary m, authors = authors m, topic = topic m,
           subTopic = subTopic m, tags = tags m, journal = journal m, publishDate = publishDate m,
           id' = uuid, url = paperUrl, addedAt = now\<rparr> # ps)
   \<and> snd (handleSubmit ps paperUrl (Inl err) uuid now) = ps
   \<and> snd (handleSubmit ps paperUrl (Inr None) uuid now) = ps
   \<and> rendersAsDuplicate ''This paper already exists in your bookshelf''
   \<and> (\<forall>shown. fst (handleSubmit ps paperUrl (Inr None) uuid now) = Some shown \<longrightarrow>
        \<not> rendersAsDuplicate shown)
   \<and> (\<forall>shown. fst (handleSubmit ps paperUrl (Inl err) uuid now) = Some shown \<longrightarrow>
        rendersAsDuplicate shown = rendersAsDuplicate (message err))
   \<and> (\<forall>e shown. inputCheck mode inputValue fileSelected = Some e \<and>
          fst (handleSubmit ps paperUrl (Inl e) uuid now) = Some shown \<longrightarrow>
        \<not> rendersAsDuplicate shown)
   \<and> (\<forall>e shown. snd (parseResponse JSON_parse text) = Inl e \<and>
          fst (handleSubmit ps paperUrl (Inl e) uuid now) = Some shown \<longrightarrow>
        \<not> rendersAsDuplicate shown)
   \<and> (\<forall>e shown. analyzePaperUrl JSON_parse apiKey generated = Inl e \<and>
          fst (handleSubmit ps paperUrl (Inl e) uuid now) = Some shown \<and> rendersAsDuplicate shown \<longrightarrow>
        serviceSaysAlreadyExists generated)
   \<and> (\<forall>e shown. analyzePaperPdf JSON_parse apiKey generated = Inl e \<and>
          fst (handleSubmit ps paperUrl (Inl e) uuid now) = Some shown \<and> rendersAsDuplicate shown \<longrightarrow>
        serviceSaysAlreadyExists generated)"
proof -
  let ?dup = "\<exists>p \<in> set ps. trim (toLowerCase (title p)) = trim (toLowerCase (title m))"
  have dup: "isDuplicate ps m \<longleftrightarrow> ?dup"
    by (simp add: isDuplicate_def list_ex_iff)
  have rejected: "(fst (handleSubmit ps paperUrl (Inr (Some m)) uuid now) = Some ''This paper already exists in your bookshelf'') = ?dup"
    by (simp add: handleSubmit_def dup)
  have unchanged: "?dup \<longrightarrow> snd (handleSubmit ps paperUrl (Inr (Some m)) uuid now) = ps"
    by (simp add: handleSubmit_def dup)
  have admitted: "\<not> ?dup \<longrightarrow>
        fst (handleSubmit ps paperUrl (Inr (Some m)) uuid now) = None \<and>
        snd (handleSubmit ps paperUrl (Inr (Some m)) uuid now) =
          \<lparr>title = title m, summary = summary m, authors = authors m, topic = topic m,
           subTopic = subTopic m, tags = tags m, journal = journal m, publishDate = publishDate m,
           id' = uuid, url = paperUrl, addedAt = now\<rparr> # ps"
    by (simp add: handleSubmit_def dup handleAddPaper_def)
  have failed: "snd (handleSubmit ps paperUrl (Inl err) uuid now) = ps"
    "snd (handleSubmit ps paperUrl (Inr None) uuid now) = ps"
    by (simp_all add: handleSubmit_def)
  have absent: "\<forall>shown. fst (handleSubmit ps paperUrl (Inr None) uuid now) = Some shown \<longrightarrow>
        \<not> rendersAsDuplicate shown"
  proof (intro allI impI)
    fix shown assume "fst (handleSubmit ps paperUrl (Inr None) uuid now) = Some shown"
    then have "shown = ''Failed to retrieve metadata''" by (simp add: handleSubmit_def)
    with fixed_messages(16) show "\<not> rendersAsDuplicate shown" by metis
  qed
  have thrown: "\<forall>shown. fst (handleSubmit ps paperUrl (Inl err) uuid now) = Some shown \<longrightarrow>
        rendersAsDuplicate shown = rendersAsDuplicate (message err)"
    using shown_failure by blast
  have checked: "\<forall>e shown. inputCheck mode inputValue fileSelected = Some e \<and>
          fst (handleSubmit ps paperUrl (Inl e) uuid now) = Some shown \<longrightarrow>
        \<not> rendersAsDuplicate shown"
    using shown_failure inputCheck_failure by blast
  have parsed: "\<forall>e shown. snd (parseResponse JSON_parse text) = Inl e \<and>
          fst (handleSubmit ps paperUrl (Inl e) uuid now) = Some shown \<longrightarrow>
        \<not> rendersAsDuplicate shown"
    using shown_failure parseResponse_failure by blast
  have locator: "\<forall>e shown. analyzePaperUrl JSON_parse apiKey generated = Inl e \<and>
          fst (handleSubmit ps paperUrl (Inl e) uuid now) = Some shown \<and> rendersAsDuplicate shown \<longrightarrow>
        serviceSaysAlreadyExists generated"
    using shown_failure analyzePaperUrl_failure by blast
  have document: "\<forall>e shown. analyzePaperPdf JSON_parse apiKey generated = Inl e \<and>
          fst (handleSubmit ps paperUrl (Inl e) uuid now) = Some shown \<and> rendersAsDuplicate shown \<longrightarrow>
        serviceSaysAlreadyExists generated"
    using shown_failure analyzePaperPdf_failure by blast
  from rejected unchanged admitted failed duplicate_message_renders absent thrown checked parsed
    locator document
  show ?thesis by (intro conjI)
qed

theorem duplicate_guard_witness:
  "handleSubmit [paper ''1'' ''  attention is all you need '' ''ML'' None [] 5] ''u''
       (Inr (Some (metadata ''Attention Is All You Need'' ''ML''))) ''2'' 9
     = (Some ''This paper already exists in your bookshelf'',
        [paper ''1'' ''  attention is all you need '' ''ML'' None [] 5])
   \<and> handleSubmit [paper ''1'' ''  attention is all you need '' ''ML'' None [] 5] ''u''
       (Inr (Some (metadata ''Deep Residual Learning'' ''ML''))) ''2'' 9
     = (None, [\<lparr>title = ''Deep Residual Learning'', summary = [], authors = [], topic = ''ML'',
                subTopic = None, tags = [], journal = None, publishDate = None,
                id' = ''2'', url = ''u'', addedAt = 9\<rparr>,
               paper ''1'' ''  attention is all you need '' ''ML'' None [] 5])
   \<and> \<not> rendersAsDuplicate ''Failed to retrieve metadata''
   \<and> \<not> rendersAsDuplicate ''Please enter a URL''
   \<and> \<not> rendersAsDuplicate ''Failed to parse AI response. The model did not return valid JSON.''
   \<and> \<not> rendersAsDuplicate ''The AI service blocked the response (Reason: SAFETY). The paper might be behind a strict paywall or triggered sensitive content filters.''
   \<and> serviceSaysAlreadyExists (Returned (Response None [Some ''Entry already exists'']))"
proof -
  let ?ps = "[paper ''1'' ''  attention is all you need '' ''ML'' None [] 5]"
  let ?same = "metadata ''Attention Is All You Need'' ''ML''"
  let ?other = "metadata ''Deep Residual Learning'' ''ML''"
  let ?safety = "Returned (Response None [Some ''SAFETY''])"
  let ?exists = "Returned (Response None [Some ''Entry already exists''])"
  let ?blocked = "''The AI service blocked the response (Reason: SAFETY). The paper might be behind a strict paywall or triggered sensitive content filters.''"
  note guard = duplicate_guard [of ?ps "''u''" ?same "''2''" 9 "Error ''quota''" UrlMode "''  ''" False
      "\<lambda>js. None" "Some ''no json''" "Some ''key''" ?safety]
  have collide: "\<exists>p \<in> set ?ps. trim (toLowerCase (title p)) = trim (toLowerCase (title ?same))"
    using example_titles_collide by simp
  with guard
  have "fst (handleSubmit ?ps ''u'' (Inr (Some ?same)) ''2'' 9) = Some ''This paper already exists in your bookshelf''"
    and "snd (handleSubmit ?ps ''u'' (Inr (Some ?same)) ''2'' 9) = ?ps"
    by blast+
  then have rejected: "handleSubmit ?ps ''u'' (Inr (Some ?same)) ''2'' 9
      = (Some ''This paper already exists in your bookshelf'', ?ps)"
    by (simp add: prod_eq_iff)
  have differ: "\<not> (\<exists>p \<in> set ?ps. trim (toLowerCase (title p)) = trim (toLowerCase (title ?other)))"
    using example_titles_differ by simp
  with duplicate_guard [of ?ps "''u''" ?other "''2''" 9]
  have "fst (handleSubmit ?ps ''u'' (Inr (Some ?other)) ''2'' 9) = None"
    and "snd (handleSubmit ?ps ''u'' (Inr (Some ?other)) ''2'' 9) =
          \<lparr>title = title ?other, summary = summary ?other, authors = authors ?other, topic = topic ?other,
           subTopic = subTopic ?other, tags = tags ?other, journal = journal ?other,
           publishDate = publishDate ?other, id' = ''2'', url = ''u'', addedAt = 9\<rparr> # ?ps"
    by blast+
  then have admitted: "handleSubmit ?ps ''u'' (Inr (Some ?other)) ''2'' 9
     = (None, [\<lparr>title = ''Deep Residual Learning'', summary = [], authors = [], topic = ''ML'',
                subTopic = None, tags = [], journal = None, publishDate = None,
                id' = ''2'', url = ''u'', addedAt = 9\<rparr>,
               paper ''1'' ''  attention is all you need '' ''ML'' None [] 5])"
    by (simp add: prod_eq_iff)
  have "fst (handleSubmit ?ps ''u'' (Inr None) ''2'' 9) = Some ''Failed to retrieve metadata''"
    by (simp add: handleSubmit_def)
  with guard have absent: "\<not> rendersAsDuplicate ''Failed to retrieve metadata''"
    by blast
  have "inputCheck UrlMode ''  '' False = Some (Error ''Please enter a URL'')"
    by (simp add: inputCheck_def trim_def isWhiteSpace_def)
  moreover have "fst (handleSubmit ?ps ''u'' (Inl (Error ''Please enter a URL'')) ''2'' 9) = Some ''Please enter a URL''"
    by (simp add: handleSubmit_def)
  ultimately have checked: "\<not> rendersAsDuplicate ''Please enter a URL''"
    using guard by blast
  have "snd (parseResponse (\<lambda>js. None) (Some ''no json''))
      = Inl (Error ''Failed to parse AI response. The model did not return valid JSON.'')"
    by (simp add: parseResponse_def tryBody_def)
  moreover have "fst (handleSubmit ?ps ''u''
        (Inl (Error ''Failed to parse AI response. The model did not return valid JSON.'')) ''2'' 9)
      = Some ''Failed to parse AI response. The model did not return valid JSON.''"
    by (simp add: handleSubmit_def)
  ultimately have parsed: "\<not> rendersAsDuplicate ''Failed to parse AI response. The model did not return valid JSON.''"
    using guard by blast
  have "analyzePaperUrl (\<lambda>js. None) (Some ''key'') ?safety = Inl (Error ?blocked)"
    by (simp add: analyzePaperUrl_def urlAttempt_def shownReason_def)
  moreover have "fst (handleSubmit ?ps ''u'' (Inl (Error ?blocked)) ''2'' 9) = Some ?blocked"
    by (simp add: handleSubmit_def)
  moreover have "\<not> serviceSaysAlreadyExists ?safety" by code_simp
  ultimately have blocked: "\<not> rendersAsDuplicate ?blocked"
    using guard by blast
  have "analyzePaperPdf (\<lambda>js. None) (Some ''key'') ?exists
      = Inl (Error ''The AI service blocked the response (Reason: Entry already exists).'')"
    by (simp add: analyzePaperPdf_def pdfAttempt_def shownReason_def)
  moreover have "fst (handleSubmit ?ps ''u''
        (Inl (Error ''The AI service blocked the response (Reason: Entry already exists).'')) ''2'' 9)
      = Some ''The AI service blocked the response (Reason: Entry already exists).''"
    by (simp add: handleSubmit_def)
  moreover have "rendersAsDuplicate ''The AI service blocked the response (Reason: Entry already exists).''"
    by code_simp
  ultimately have supplied: "serviceSaysAlreadyExists ?exists"
    using duplicate_guard [of ?ps "''u''" ?same "''2''" 9 "Error ''quota''" UrlMode "''  ''" False
      "\<lambda>js. None" "Some ''no json''" "Some ''key''" ?exists]
    by blast
  from rejected admitted absent checked parsed blocked supplied show ?thesis by (intro conjI)
qed

section \<open>The validation of the parsed value\<close>

lemma tryBody_titled:
  assumes "JSON_parse js = Some data" and "truthy (field data ''title'')"
  shows "tryBody JSON_parse js =
     (if truthy (field data ''summary'') \<and> isArray (field data ''authors'') \<and>
         isArray (field data ''tags'') \<and> truthy (field data ''topic'')
      then [] else [ConsoleWarn ''Incomplete data structure received'' data], Inr data)"
proof -
  from assms(2) have "data \<noteq> JNull" by (auto simp: field_def)
  with assms show ?thesis by (auto simp: tryBody_def)
qed

lemma tryBody_untitled:
  assumes "JSON_parse js = Some data" and "\<not> truthy (field data ''title'')"
  shows "\<exists>logged e. tryBody JSON_parse js = (logged, Inl e)"
  using assms by (auto simp: tryBody_def)

lemma tryBody_unparsed:
  assumes "JSON_parse js = None"
  shows "tryBody JSON_parse js = ([], Inl SyntaxError)"
  using assms by (simp add: tryBody_def)

lemma parseResponse_thrown:
  assumes "text \<noteq> []" and "tryBody JSON_parse (jsonString text) = (logged, Inl e)"
  shows "snd (parseResponse JSON_parse (Some text)) =
     Inl (Error ''Failed to parse AI response. The model did not return valid JSON.'')"
  using assms by (simp add: parseResponse_def)

text \<open>
  C6. When the extracted string parses and the value has a title that is not empty,
  the value is returned as it was parsed, whatever else is missing; the only trace of
  a missing summary, authors, tags or topic is one warning on the console. The
  returned value being the parsed one, its sub-topic, journal and publish date are
  those of the parsed value.
\<close>

theorem permissive_validation:
  assumes "text \<noteq> []" and "JSON_parse (jsonString text) = Some data"
    and "truthy (field data ''title'')"
  shows "snd (parseResponse JSON_parse (Some text)) = Inr data
   \<and> fst (parseResponse JSON_parse (Some text)) =
       (if truthy (field data ''summary'') \<and> isArray (field data ''authors'') \<and>
           isArray (field data ''tags'') \<and> truthy (field data ''topic'')
        then [] else [ConsoleWarn ''Incomplete data structure received'' data])
   \<and> (\<forall>returned. snd (parseResponse JSON_parse (Some text)) = Inr returned \<longrightarrow>
        field returned ''subTopic'' = field data ''subTopic'' \<and>
        field returned ''journal'' = field data ''journal'' \<and>
        field returned ''publishDate'' = field data ''publishDate'')"
proof -
  note body = tryBody_titled [of JSON_parse "jsonString text" data, OF assms(2,3)]
  from assms(1) have result: "snd (parseResponse JSON_parse (Some text)) = Inr data"
    by (simp add: parseResponse_def body)
  from assms(1) have diagnostic: "fst (parseResponse JSON_parse (Some text)) =
       (if truthy (field data ''summary'') \<and> isArray (field data ''authors'') \<and>
           isArray (field data ''tags'') \<and> truthy (field data ''topic'')
        then [] else [ConsoleWarn ''Incomplete data structure received'' data])"
    by (simp add: parseResponse_def body)
  from result diagnostic show ?thesis by simp
qed

theorem permissive_validation_witness:
  "parseResponse (\<lambda>s. if s = ''{title: T, journal: J}''
                       then Some (JObject [(''title'', JString ''T''), (''journal'', JString ''J'')])
                       else None)
       (Some ''Sure! {title: T, journal: J} Done.'')
     = ([ConsoleWarn ''Incomplete data structure received''
           (JObject [(''title'', JString ''T''), (''journal'', JString ''J'')])],
        Inr (JObject [(''title'', JString ''T''), (''journal'', JString ''J'')]))"
proof -
  let ?parse = "\<lambda>s. if s = ''{title: T, journal: J}''
                       then Some (JObject [(''title'', JString ''T''), (''journal'', JString ''J'')])
                       else None"
  let ?text = "''Sure! {title: T, journal: J} Done.''"
  let ?data = "JObject [(''title'', JString ''T''), (''journal'', JString ''J'')]"
  have extracted: "jsonString ?text = ''{title: T, journal: J}''"
    by code_simp
  have nonempty: "?text \<noteq> []" by simp
  have parsed: "?parse (jsonString ?text) = Some ?data"
    unfolding extracted by simp
  have titled: "truthy (field ?data ''title'')"
    by (simp add: field_def)
  from permissive_validation [of ?text ?parse ?data, OF nonempty parsed titled]
  have "snd (parseResponse ?parse (Some ?text)) = Inr ?data"
    and "fst (parseResponse ?parse (Some ?text)) = [ConsoleWarn ''Incomplete data structure received'' ?data]"
    by (simp_all add: field_def)
  then show ?thesis by (simp add: prod_eq_iff)
qed

text \<open>
  C1. When the extracted string parses and the value has no title, or an empty one,
  the response is refused. The error thrown for the missing title is caught by the
  handler of the same \<^verbatim>\<open>try\<close>, which throws the message of the parse failure in its
  place: the caller receives the very error it receives for a string that does not
  parse.
\<close>

theorem missing_title_is_generic_failure:
  assumes "text \<noteq> []" and "JSON_parse (jsonString text) = Some data"
    and "\<not> truthy (field data ''title'')"
    and "text' \<noteq> []" and "JSON_parse (jsonString text') = None"
  shows "snd (parseResponse JSON_parse (Some text)) =
           Inl (Error ''Failed to parse AI response. The model did not return valid JSON.'')
   \<and> snd (parseResponse JSON_parse (Some text)) = snd (parseResponse JSON_parse (Some text'))"
proof -
  from tryBody_untitled [of JSON_parse "jsonString text" data, OF assms(2,3)] obtain logged e
    where "tryBody JSON_parse (jsonString text) = (logged, Inl e)" by blast
  from parseResponse_thrown [OF assms(1) this]
  have untitled: "snd (parseResponse JSON_parse (Some text)) =
           Inl (Error ''Failed to parse AI response. The model did not return valid JSON.'')" .
  from parseResponse_thrown [OF assms(4) tryBody_unparsed [of JSON_parse "jsonString text'", OF assms(5)]]
  have unparsed: "snd (parseResponse JSON_parse (Some text')) =
           Inl (Error ''Failed to parse AI response. The model did not return valid JSON.'')" .
  from untitled unparsed show ?thesis by simp
qed

theorem missing_title_is_generic_failure_witness:
  "snd (parseResponse (\<lambda>s. if s = ''{}'' then Some (JObject []) else None) (Some ''{}''))
     = Inl (Error ''Failed to parse AI response. The model did not return valid JSON.'')
   \<and> snd (parseResponse (\<lambda>s. if s = ''{}'' then Some (JObject []) else None) (Some ''{}''))
     = snd (parseResponse (\<lambda>s. if s = ''{}'' then Some (JObject []) else None) (Some ''oops''))"
proof -
  let ?parse = "\<lambda>s. if s = ''{}'' then Some (JObject []) else None"
  have e1: "jsonString ''{}'' = ''{}''" by code_simp
  have e2: "jsonString ''oops'' = ''oops''" by code_simp
  have a: "''{}'' \<noteq> []" and b: "?parse (jsonString ''{}'') = Some (JObject [])"
    and c: "\<not> truthy (field (JObject []) ''title'')"
    and d: "''oops'' \<noteq> []" and e: "?parse (jsonString ''oops'') = None"
    unfolding e1 e2 by (simp_all add: field_def)
  from missing_title_is_generic_failure [of "''{}''" ?parse "JObject []" "''oops''", OF a b c d e] show ?thesis .
qed

section \<open>The extraction of the JSON text\<close>

subsection \<open>The closing fence\<close>

lemma tick_not_space: "\<not> isWhiteSpace (CHR 0x60)"
  by (simp add: isWhiteSpace_def)

lemma closesFence_iff:
  "closesFence s \<longleftrightarrow> (\<exists>w rest. s = w @ [CHR 0x60, CHR 0x60, CHR 0x60] @ rest \<and> whiteSpace w)"
proof
  assume "closesFence s"
  then obtain rest where "dropWhile isWhiteSpace s = [CHR 0x60, CHR 0x60, CHR 0x60] @ rest"
    by (auto simp: closesFence_def prefix_def)
  then have "s = takeWhile isWhiteSpace s @ [CHR 0x60, CHR 0x60, CHR 0x60] @ rest"
    by (metis takeWhile_dropWhile_id)
  moreover have "whiteSpace (takeWhile isWhiteSpace s)"
    by (auto simp: whiteSpace_def list_all_iff dest: set_takeWhileD)
  ultimately show "\<exists>w rest. s = w @ [CHR 0x60, CHR 0x60, CHR 0x60] @ rest \<and> whiteSpace w"
    by blast
next
  assume "\<exists>w rest. s = w @ [CHR 0x60, CHR 0x60, CHR 0x60] @ rest \<and> whiteSpace w"
  then obtain w rest where s: "s = w @ [CHR 0x60, CHR 0x60, CHR 0x60] @ rest" and w: "whiteSpace w"
    by blast
  from w have "dropWhile isWhiteSpace (w @ [CHR 0x60, CHR 0x60, CHR 0x60] @ rest)
      = dropWhile isWhiteSpace ([CHR 0x60, CHR 0x60, CHR 0x60] @ rest)"
    by (intro dropWhile_append2) (simp add: whiteSpace_def list_all_iff)
  then show "closesFence s"
    by (simp add: s closesFence_def tick_not_space)
qed

lemma closesFence_sublist: "closesFence s \<Longrightarrow> sublist [CHR 0x60, CHR 0x60, CHR 0x60] s"
  unfolding closesFence_iff sublist_def by blast

lemma prefix_closesFence: "prefix [CHR 0x60, CHR 0x60, CHR 0x60] s \<Longrightarrow> closesFence s"
  by (auto simp: closesFence_def prefix_def tick_not_space)

subsection \<open>The group and the white space before it\<close>

lemma lazyGroup_Some:
  "lazyGroup s = Some g \<Longrightarrow> \<exists>rest. s = g @ rest \<and> closesFence rest"
proof (induction s arbitrary: g)
  case Nil
  then show ?case by (simp add: closesFence_def)
next
  case (Cons c cs)
  show ?case
  proof (cases "closesFence (c # cs)")
    case True
    with Cons.prems show ?thesis by auto
  next
    case False
    with Cons.prems obtain g' where "lazyGroup cs = Some g'" and "g = c # g'"
      by auto
    with Cons.IH show ?thesis by auto
  qed
qed

lemma lazyGroup_None_iff: "lazyGroup s = None \<longleftrightarrow> \<not> sublist [CHR 0x60, CHR 0x60, CHR 0x60] s"
proof (induction s)
  case Nil
  then show ?case by (simp add: closesFence_def)
next
  case (Cons c cs)
  show ?case
  proof (cases "closesFence (c # cs)")
    case True
    then show ?thesis using closesFence_sublist [OF True] by simp
  next
    case False
    then have "\<not> prefix [CHR 0x60, CHR 0x60, CHR 0x60] (c # cs)"
      using prefix_closesFence by blast
    with False Cons.IH show ?thesis
      by (simp add: sublist_Cons_right)
  qed
qed

lemma greedySpace_Some:
  "greedySpace k s = Some g \<Longrightarrow> \<exists>j \<le> k. lazyGroup (drop j s) = Some g"
proof (induction k)
  case 0
  then show ?case by simp
next
  case (Suc k)
  show ?case
  proof (cases "lazyGroup (drop (Suc k) s)")
    case None
    with Suc.prems have "greedySpace k s = Some g" by simp
    with Suc.IH obtain j where "j \<le> k" "lazyGroup (drop j s) = Some g" by blast
    then show ?thesis by (intro exI [of _ j]) simp
  next
    case (Some g')
    with Suc.prems have "g' = g" by simp
    with Some show ?thesis by blast
  qed
qed

lemma greedySpace_first: "lazyGroup (drop k s) = Some g \<Longrightarrow> greedySpace k s = Some g"
  by (cases k) simp_all

lemma sublist_fence_dropWhile:
  "sublist [CHR 0x60, CHR 0x60, CHR 0x60] s \<Longrightarrow>
   sublist [CHR 0x60, CHR 0x60, CHR 0x60] (dropWhile isWhiteSpace s)"
proof (induction s)
  case Nil
  then show ?case by simp
next
  case (Cons c cs)
  show ?case
  proof (cases "isWhiteSpace c")
    case True
    with tick_not_space have "\<not> prefix [CHR 0x60, CHR 0x60, CHR 0x60] (c # cs)"
      by auto
    with Cons.prems have "sublist [CHR 0x60, CHR 0x60, CHR 0x60] cs"
      by (metis sublist_Cons_right)
    with Cons.IH True show ?thesis by simp
  next
    case False
    with Cons.prems show ?thesis by simp
  qed
qed

subsection \<open>The match at one position and the leftmost match\<close>

lemma matchAt_Some:
  assumes "matchAt s = Some g"
  shows "\<exists>w1 w2 rest. s = [CHR 0x60, CHR 0x60, CHR 0x60] @ ''json'' @ w1 @ g @ w2 @
            [CHR 0x60, CHR 0x60, CHR 0x60] @ rest \<and> whiteSpace w1 \<and> whiteSpace w2"
proof -
  let ?r = "drop 7 s"
  from assms have tag: "prefix ([CHR 0x60, CHR 0x60, CHR 0x60] @ ''json'') s"
    and greedy: "greedySpace (length (takeWhile isWhiteSpace ?r)) ?r = Some g"
    by (auto simp: matchAt_def split: if_splits)
  from tag have s: "s = [CHR 0x60, CHR 0x60, CHR 0x60] @ ''json'' @ ?r"
    by (auto simp: prefix_def)
  from greedySpace_Some [OF greedy] obtain j
    where j: "j \<le> length (takeWhile isWhiteSpace ?r)" and lazy: "lazyGroup (drop j ?r) = Some g"
    by blast
  from lazyGroup_Some [OF lazy] obtain rest' where rest': "drop j ?r = g @ rest'" "closesFence rest'"
    by blast
  then obtain w2 rest where w2: "rest' = w2 @ [CHR 0x60, CHR 0x60, CHR 0x60] @ rest" "whiteSpace w2"
    unfolding closesFence_iff by blast
  from j have "take j ?r = take j (takeWhile isWhiteSpace ?r)"
    by (metis append_eq_conv_conj append_take_drop_id takeWhile_dropWhile_id take_all_iff take_append
        diff_is_0_eq take_0 append_Nil2)
  then have "set (take j ?r) \<subseteq> set (takeWhile isWhiteSpace ?r)"
    by (metis set_take_subset)
  then have w1: "whiteSpace (take j ?r)"
    by (auto simp: whiteSpace_def list_all_iff dest: set_takeWhileD)
  have "?r = take j ?r @ g @ w2 @ [CHR 0x60, CHR 0x60, CHR 0x60] @ rest"
    using rest'(1) w2(1) by (metis append_take_drop_id)
  with s have "s = [CHR 0x60, CHR 0x60, CHR 0x60] @ ''json'' @ take j ?r @ g @ w2 @
            [CHR 0x60, CHR 0x60, CHR 0x60] @ rest"
    by (metis append.assoc)
  with w1 w2(2) show ?thesis by blast
qed

lemma matchAt_tagged:
  assumes "sublist [CHR 0x60, CHR 0x60, CHR 0x60] r"
  shows "matchAt ([CHR 0x60, CHR 0x60, CHR 0x60] @ ''json'' @ r) \<noteq> None"
proof -
  let ?k = "length (takeWhile isWhiteSpace r)"
  have "drop ?k r = dropWhile isWhiteSpace r"
    by (metis append_eq_conv_conj takeWhile_dropWhile_id)
  with sublist_fence_dropWhile [OF assms] have "lazyGroup (drop ?k r) \<noteq> None"
    by (simp add: lazyGroup_None_iff)
  then obtain g where "lazyGroup (drop ?k r) = Some g" by blast
  then have "greedySpace ?k r = Some g" by (rule greedySpace_first)
  then show ?thesis by (simp add: matchAt_def)
qed

lemma jsonCodeBlockMatch_Some:
  "jsonCodeBlockMatch text = Some g \<Longrightarrow>
   \<exists>pre w1 w2 post. text = pre @ [CHR 0x60, CHR 0x60, CHR 0x60] @ ''json'' @ w1 @ g @ w2 @
       [CHR 0x60, CHR 0x60, CHR 0x60] @ post \<and> whiteSpace w1 \<and> whiteSpace w2"
proof (induction "text")
  case Nil
  then show ?case by (simp add: matchAt_def)
next
  case (Cons c cs)
  show ?case
  proof (cases "matchAt (c # cs)")
    case (Some g')
    with Cons.prems have "matchAt (c # cs) = Some g" by simp
    from matchAt_Some [OF this] show ?thesis
      by (metis append_Nil)
  next
    case None
    with Cons.prems have "jsonCodeBlockMatch cs = Some g" by simp
    from Cons.IH [OF this] obtain pre w1 w2 post
      where "cs = pre @ [CHR 0x60, CHR 0x60, CHR 0x60] @ ''json'' @ w1 @ g @ w2 @
         [CHR 0x60, CHR 0x60, CHR 0x60] @ post" "whiteSpace w1" "whiteSpace w2"
      by blast
    then have "c # cs = (c # pre) @ [CHR 0x60, CHR 0x60, CHR 0x60] @ ''json'' @ w1 @ g @ w2 @
         [CHR 0x60, CHR 0x60, CHR 0x60] @ post \<and> whiteSpace w1 \<and> whiteSpace w2"
      by simp
    then show ?thesis by blast
  qed
qed

lemma jsonCodeBlockMatch_block:
  "jsonCodeBlockMatch (pre @ [CHR 0x60, CHR 0x60, CHR 0x60] @ ''json'' @ inner @
       [CHR 0x60, CHR 0x60, CHR 0x60] @ post) \<noteq> None"
proof (induction pre)
  case Nil
  have "sublist [CHR 0x60, CHR 0x60, CHR 0x60] (inner @ [CHR 0x60, CHR 0x60, CHR 0x60] @ post)"
    unfolding sublist_def by blast
  from matchAt_tagged [OF this] show ?case
    by (auto split: option.splits)
next
  case (Cons c pre)
  then show ?case by (auto split: option.splits)
qed

lemma jsonCodeBlockMatch_None_iff: "jsonCodeBlockMatch text = None \<longleftrightarrow> \<not> hasJsonBlock text"
proof
  assume "jsonCodeBlockMatch text = None"
  then show "\<not> hasJsonBlock text"
    unfolding hasJsonBlock_def using jsonCodeBlockMatch_block by blast
next
  assume none: "\<not> hasJsonBlock text"
  show "jsonCodeBlockMatch text = None"
  proof (rule ccontr)
    assume "jsonCodeBlockMatch text \<noteq> None"
    then obtain g where "jsonCodeBlockMatch text = Some g" by blast
    from jsonCodeBlockMatch_Some [OF this] obtain pre w1 w2 post
      where "text = pre @ [CHR 0x60, CHR 0x60, CHR 0x60] @ ''json'' @ (w1 @ g @ w2) @
         [CHR 0x60, CHR 0x60, CHR 0x60] @ post"
      by auto
    then have "hasJsonBlock text" unfolding hasJsonBlock_def by blast
    with none show False by blast
  qed
qed

subsection \<open>The braces\<close>

lemma indexOf_absent: "c \<notin> set s \<Longrightarrow> indexOf s c = - 1"
  by (induction s) auto

lemma indexOf_nonneg: "c \<in> set s \<Longrightarrow> 0 \<le> indexOf s c"
  by (induction s) (auto simp: Let_def)

lemma indexOf_first: "c \<notin> set a \<Longrightarrow> indexOf (a @ c # r) c = int (length a)"
  by (induction a) (auto simp: Let_def)

lemma indexOf_minus_one_iff: "indexOf s c = - 1 \<longleftrightarrow> c \<notin> set s"
  using indexOf_absent [of c s] indexOf_nonneg [of c s] by auto

lemma lastIndexOf_last: "c \<notin> set r \<Longrightarrow> lastIndexOf (a @ c # r) c = int (length a)"
proof -
  assume "c \<notin> set r"
  then have "indexOf (rev r @ c # rev a) c = int (length r)"
    using indexOf_first [of c "rev r" "rev a"] by simp
  then show ?thesis by (simp add: lastIndexOf_def)
qed

lemma lastIndexOf_minus_one_iff: "lastIndexOf s c = - 1 \<longleftrightarrow> c \<notin> set s"
proof (cases "c \<in> set s")
  case True
  then obtain a r where "s = a @ c # r" "c \<notin> set r"
    by (meson split_list_last)
  with lastIndexOf_last [of c r a] True show ?thesis by simp
next
  case False
  then show ?thesis by (simp add: lastIndexOf_def indexOf_absent)
qed

lemma substring_middle:
  "substring (a @ m @ r) (int (length a)) (int (length a) + int (length m)) = m"
proof -
  let ?n = "int (length (a @ m @ r))"
  have lo: "min (max (int (length a)) 0) ?n = int (length a)"
    by simp
  have hi: "min (max (int (length a) + int (length m)) 0) ?n = int (length a) + int (length m)"
    by simp
  have order: "min (int (length a)) (int (length a) + int (length m)) = int (length a)"
    "max (int (length a)) (int (length a) + int (length m)) = int (length a) + int (length m)"
    by simp_all
  show ?thesis
    unfolding substring_def Let_def lo hi order by simp
qed

lemma braces_extracted:
  assumes "\<not> hasJsonBlock (a @ ''{'' @ b @ ''}'' @ c)"
    and "CHR ''{'' \<notin> set a" and "CHR ''}'' \<notin> set c"
  shows "jsonString (a @ ''{'' @ b @ ''}'' @ c) = ''{'' @ b @ ''}''"
proof -
  let ?text = "a @ ''{'' @ b @ ''}'' @ c"
  have first: "indexOf ?text CHR ''{'' = int (length a)"
    using indexOf_first [OF assms(2), of "b @ ''}'' @ c"] by simp
  have "lastIndexOf ((a @ ''{'' @ b) @ CHR ''}'' # c) CHR ''}'' = int (length (a @ ''{'' @ b))"
    using assms(3) by (rule lastIndexOf_last)
  then have last: "lastIndexOf ?text CHR ''}'' = int (length a) + 1 + int (length b)"
    by simp
  have "substring (a @ (''{'' @ b @ ''}'') @ c) (int (length a))
          (int (length a) + int (length (''{'' @ b @ ''}''))) = ''{'' @ b @ ''}''"
    by (rule substring_middle)
  then have sub: "substring ?text (int (length a)) (int (length a) + 1 + int (length b) + 1) = ''{'' @ b @ ''}''"
    by (simp add: add.assoc)
  from assms(1) have "jsonCodeBlockMatch ?text = None"
    by (simp add: jsonCodeBlockMatch_None_iff)
  then show ?thesis
    unfolding jsonString_def first last Let_def using sub by simp
qed

lemma no_braces_trimmed:
  assumes "\<not> hasJsonBlock text" and "\<not> hasBracePair text"
  shows "jsonString text = trim text"
proof -
  have "\<not> (indexOf text CHR ''{'' \<noteq> - 1 \<and> lastIndexOf text CHR ''}'' \<noteq> - 1 \<and>
           lastIndexOf text CHR ''}'' > indexOf text CHR ''{'')"
  proof
    assume pair: "indexOf text CHR ''{'' \<noteq> - 1 \<and> lastIndexOf text CHR ''}'' \<noteq> - 1 \<and>
           lastIndexOf text CHR ''}'' > indexOf text CHR ''{''"
    then have "CHR ''{'' \<in> set text" and "CHR ''}'' \<in> set text"
      by (simp_all add: indexOf_minus_one_iff lastIndexOf_minus_one_iff)
    then obtain a r a' r' where first: "text = a @ CHR ''{'' # r" "CHR ''{'' \<notin> set a"
      and last: "text = a' @ CHR ''}'' # r'" "CHR ''}'' \<notin> set r'"
      by (meson split_list_first split_list_last)
    have i: "indexOf text CHR ''{'' = int (length a)"
      unfolding first(1) using first(2) by (rule indexOf_first)
    have j: "lastIndexOf text CHR ''}'' = int (length a')"
      unfolding last(1) using last(2) by (rule lastIndexOf_last)
    from pair i j have "length a < length a'" by simp
    moreover from first(1) last(1) have "a @ CHR ''{'' # r = a' @ CHR ''}'' # r'" by simp
    ultimately obtain b where "a' = a @ CHR ''{'' # b"
      by (auto simp: append_eq_append_conv2 Cons_eq_append_conv)
    with last(1) have "text = a @ ''{'' @ b @ ''}'' @ r'" by simp
    then have "hasBracePair text" unfolding hasBracePair_def by blast
    with assms(2) show False by blast
  qed
  moreover from assms(1) have "jsonCodeBlockMatch text = None"
    by (simp add: jsonCodeBlockMatch_None_iff)
  ultimately show ?thesis
    by (auto simp: jsonString_def Let_def)
qed

subsection \<open>The content of the first block\<close>

lemma prefix_within:
  assumes "prefix p (y @ z)" and "length p \<le> length y + n"
  shows "prefix p (y @ take n z)"
proof -
  from assms(1) have "p = take (length p) (y @ z)"
    by (metis append_eq_conv_conj prefix_def)
  also have "\<dots> = take (length p) y @ take (length p - length y) z"
    by simp
  also have "\<dots> = take (length p) y @ take (length p - length y) (take n z)"
  proof -
    from assms(2) have "min (length p - length y) n = length p - length y" by simp
    then show ?thesis by (simp only: take_take)
  qed
  also have "\<dots> = take (length p) (y @ take n z)"
    by simp
  finally have "p = take (length p) (y @ take n z)" .
  then show ?thesis by (metis take_is_prefix)
qed

lemma sublist_behind:
  assumes "sublist p (y @ t)"
  shows "sublist p ((w @ y) @ t)"
proof -
  from assms obtain a b where "y @ t = a @ p @ b"
    unfolding sublist_def by blast
  then have "(w @ y) @ t = (w @ a) @ p @ b" by simp
  then show ?thesis unfolding sublist_def by blast
qed

lemma closesFence_first_fence:
  assumes "\<not> sublist [CHR 0x60, CHR 0x60, CHR 0x60] (x @ [CHR 0x60, CHR 0x60])"
  shows "closesFence (x @ [CHR 0x60, CHR 0x60, CHR 0x60] @ post) \<longleftrightarrow> whiteSpace x"
proof
  assume "whiteSpace x"
  then show "closesFence (x @ [CHR 0x60, CHR 0x60, CHR 0x60] @ post)"
    unfolding closesFence_iff by blast
next
  assume closes: "closesFence (x @ [CHR 0x60, CHR 0x60, CHR 0x60] @ post)"
  show "whiteSpace x"
  proof (rule ccontr)
    assume "\<not> whiteSpace x"
    then obtain c where c: "c \<in> set x" "\<not> isWhiteSpace c"
      by (auto simp: whiteSpace_def list_all_iff)
    let ?y = "dropWhile isWhiteSpace x"
    from c have y: "?y \<noteq> []" by (auto simp: dropWhile_eq_Nil_conv)
    from c have "dropWhile isWhiteSpace (x @ [CHR 0x60, CHR 0x60, CHR 0x60] @ post)
        = ?y @ [CHR 0x60, CHR 0x60, CHR 0x60] @ post"
      by (rule dropWhile_append1)
    with closes have "prefix [CHR 0x60, CHR 0x60, CHR 0x60] (?y @ [CHR 0x60, CHR 0x60, CHR 0x60] @ post)"
      by (simp add: closesFence_def)
    moreover from y have "length [CHR 0x60, CHR 0x60, CHR 0x60] \<le> length ?y + 2"
      by (cases ?y) simp_all
    ultimately have "prefix [CHR 0x60, CHR 0x60, CHR 0x60]
        (?y @ take 2 ([CHR 0x60, CHR 0x60, CHR 0x60] @ post))"
      by (rule prefix_within)
    then have "prefix [CHR 0x60, CHR 0x60, CHR 0x60] (?y @ [CHR 0x60, CHR 0x60])"
      by simp
    then have "sublist [CHR 0x60, CHR 0x60, CHR 0x60] (?y @ [CHR 0x60, CHR 0x60])"
      by (rule prefix_imp_sublist)
    then have "sublist [CHR 0x60, CHR 0x60, CHR 0x60]
        ((takeWhile isWhiteSpace x @ ?y) @ [CHR 0x60, CHR 0x60])"
      by (rule sublist_behind)
    then have "sublist [CHR 0x60, CHR 0x60, CHR 0x60] (x @ [CHR 0x60, CHR 0x60])"
      by simp
    with assms show False by blast
  qed
qed

lemma trimEnd_Cons:
  assumes "\<not> whiteSpace (c # x)"
  shows "rev (dropWhile isWhiteSpace (rev (c # x))) = c # rev (dropWhile isWhiteSpace (rev x))"
proof (cases "whiteSpace x")
  case True
  with assms have c: "\<not> isWhiteSpace c" by (simp add: whiteSpace_def)
  from True have "dropWhile isWhiteSpace (rev x @ [c]) = dropWhile isWhiteSpace [c]"
    by (intro dropWhile_append2) (simp add: whiteSpace_def list_all_iff)
  moreover from True have "dropWhile isWhiteSpace (rev x) = []"
    by (simp add: whiteSpace_def list_all_iff dropWhile_eq_Nil_conv)
  ultimately show ?thesis using c by simp
next
  case False
  then obtain d where "d \<in> set (rev x)" "\<not> isWhiteSpace d"
    by (auto simp: whiteSpace_def list_all_iff)
  then have "dropWhile isWhiteSpace (rev x @ [c]) = dropWhile isWhiteSpace (rev x) @ [c]"
    by (rule dropWhile_append1)
  then show ?thesis by simp
qed

lemma lazyGroup_first_fence:
  "\<not> sublist [CHR 0x60, CHR 0x60, CHR 0x60] (x @ [CHR 0x60, CHR 0x60]) \<Longrightarrow>
   lazyGroup (x @ [CHR 0x60, CHR 0x60, CHR 0x60] @ post) = Some (rev (dropWhile isWhiteSpace (rev x)))"
proof (induction x)
  case Nil
  have "closesFence ([CHR 0x60, CHR 0x60, CHR 0x60] @ post)"
    by (rule prefix_closesFence) simp
  then show ?case by simp
next
  case (Cons c x)
  have tail: "\<not> sublist [CHR 0x60, CHR 0x60, CHR 0x60] (x @ [CHR 0x60, CHR 0x60])"
  proof
    assume "sublist [CHR 0x60, CHR 0x60, CHR 0x60] (x @ [CHR 0x60, CHR 0x60])"
    then have "sublist [CHR 0x60, CHR 0x60, CHR 0x60] (([c] @ x) @ [CHR 0x60, CHR 0x60])"
      by (rule sublist_behind)
    with Cons.prems show False by simp
  qed
  note closes = closesFence_first_fence [OF Cons.prems, of post]
  show ?case
  proof (cases "whiteSpace (c # x)")
    case True
    with closes have "closesFence ((c # x) @ [CHR 0x60, CHR 0x60, CHR 0x60] @ post)" by blast
    moreover from True have "dropWhile isWhiteSpace (rev (c # x)) = []"
      by (simp add: whiteSpace_def list_all_iff dropWhile_eq_Nil_conv)
    ultimately show ?thesis by simp
  next
    case False
    with closes have "\<not> closesFence ((c # x) @ [CHR 0x60, CHR 0x60, CHR 0x60] @ post)" by blast
    then have "lazyGroup ((c # x) @ [CHR 0x60, CHR 0x60, CHR 0x60] @ post)
        = map_option ((#) c) (lazyGroup (x @ [CHR 0x60, CHR 0x60, CHR 0x60] @ post))"
      by simp
    also have "\<dots> = Some (c # rev (dropWhile isWhiteSpace (rev x)))"
      by (simp only: Cons.IH [OF tail] option.map)
    also have "\<dots> = Some (rev (dropWhile isWhiteSpace (rev (c # x))))"
      by (simp only: trimEnd_Cons [OF False])
    finally show ?thesis .
  qed
qed

lemma takeWhile_before_fence:
  "takeWhile isWhiteSpace (x @ [CHR 0x60, CHR 0x60, CHR 0x60] @ post) = takeWhile isWhiteSpace x"
  by (induction x) (simp_all add: tick_not_space)

lemma dropWhile_before_fence:
  "dropWhile isWhiteSpace (x @ [CHR 0x60, CHR 0x60, CHR 0x60] @ post)
     = dropWhile isWhiteSpace x @ [CHR 0x60, CHR 0x60, CHR 0x60] @ post"
  by (induction x) (simp_all add: tick_not_space)

lemma matchAt_first_fence:
  assumes "\<not> sublist [CHR 0x60, CHR 0x60, CHR 0x60] (inner @ [CHR 0x60, CHR 0x60])"
  shows "matchAt ([CHR 0x60, CHR 0x60, CHR 0x60] @ ''json'' @ inner @ [CHR 0x60, CHR 0x60, CHR 0x60] @ post)
           = Some (trim inner)"
proof -
  let ?r = "inner @ [CHR 0x60, CHR 0x60, CHR 0x60] @ post"
  let ?k = "length (takeWhile isWhiteSpace ?r)"
  let ?y = "dropWhile isWhiteSpace inner"
  have "drop ?k ?r = dropWhile isWhiteSpace ?r"
    by (metis append_eq_conv_conj takeWhile_dropWhile_id)
  then have dropped: "drop ?k ?r = ?y @ [CHR 0x60, CHR 0x60, CHR 0x60] @ post"
    by (simp only: dropWhile_before_fence)
  have first: "\<not> sublist [CHR 0x60, CHR 0x60, CHR 0x60] (?y @ [CHR 0x60, CHR 0x60])"
  proof
    assume "sublist [CHR 0x60, CHR 0x60, CHR 0x60] (?y @ [CHR 0x60, CHR 0x60])"
    then have "sublist [CHR 0x60, CHR 0x60, CHR 0x60]
        ((takeWhile isWhiteSpace inner @ ?y) @ [CHR 0x60, CHR 0x60])"
      by (rule sublist_behind)
    with assms show False by simp
  qed
  from lazyGroup_first_fence [OF first, of post]
  have "lazyGroup (drop ?k ?r) = Some (trim inner)"
    by (simp only: dropped trim_def)
  then have "greedySpace ?k ?r = Some (trim inner)"
    by (rule greedySpace_first)
  then show ?thesis by (simp add: matchAt_def)
qed

lemma matchAt_untagged: "\<not> prefix ([CHR 0x60, CHR 0x60, CHR 0x60] @ ''json'') s \<Longrightarrow> matchAt s = None"
  by (simp add: matchAt_def)

lemma jsonCodeBlockMatch_first_tag:
  assumes "matchAt ([CHR 0x60, CHR 0x60, CHR 0x60] @ ''json'' @ r) = Some g"
  shows "\<not> sublist ([CHR 0x60, CHR 0x60, CHR 0x60] @ ''json'') (pre @ [CHR 0x60, CHR 0x60, CHR 0x60] @ ''jso'') \<Longrightarrow>
    jsonCodeBlockMatch (pre @ [CHR 0x60, CHR 0x60, CHR 0x60] @ ''json'' @ r) = Some g"
proof (induction pre)
  case Nil
  from assms show ?case by simp
next
  case (Cons c pre)
  have tail: "\<not> sublist ([CHR 0x60, CHR 0x60, CHR 0x60] @ ''json'') (pre @ [CHR 0x60, CHR 0x60, CHR 0x60] @ ''jso'')"
  proof
    assume "sublist ([CHR 0x60, CHR 0x60, CHR 0x60] @ ''json'') (pre @ [CHR 0x60, CHR 0x60, CHR 0x60] @ ''jso'')"
    then have "sublist ([CHR 0x60, CHR 0x60, CHR 0x60] @ ''json'')
        (([c] @ pre) @ [CHR 0x60, CHR 0x60, CHR 0x60] @ ''jso'')"
      by (rule sublist_behind)
    with Cons.prems show False by simp
  qed
  have "\<not> prefix ([CHR 0x60, CHR 0x60, CHR 0x60] @ ''json'')
          ((c # pre) @ [CHR 0x60, CHR 0x60, CHR 0x60] @ ''json'' @ r)"
  proof
    assume "prefix ([CHR 0x60, CHR 0x60, CHR 0x60] @ ''json'')
          ((c # pre) @ [CHR 0x60, CHR 0x60, CHR 0x60] @ ''json'' @ r)"
    moreover have "length ([CHR 0x60, CHR 0x60, CHR 0x60] @ ''json'') \<le> length (c # pre) + 6"
      by simp
    ultimately have "prefix ([CHR 0x60, CHR 0x60, CHR 0x60] @ ''json'')
          ((c # pre) @ take 6 ([CHR 0x60, CHR 0x60, CHR 0x60] @ ''json'' @ r))"
      by (rule prefix_within)
    moreover have "take 6 ([CHR 0x60, CHR 0x60, CHR 0x60] @ ''json'' @ r) = [CHR 0x60, CHR 0x60, CHR 0x60] @ ''jso''"
      by simp
    ultimately have "prefix ([CHR 0x60, CHR 0x60, CHR 0x60] @ ''json'')
          ((c # pre) @ [CHR 0x60, CHR 0x60, CHR 0x60] @ ''jso'')"
      by (simp only:)
    then have "sublist ([CHR 0x60, CHR 0x60, CHR 0x60] @ ''json'')
          ((c # pre) @ [CHR 0x60, CHR 0x60, CHR 0x60] @ ''jso'')"
      by (rule prefix_imp_sublist)
    with Cons.prems show False by blast
  qed
  then have "matchAt ((c # pre) @ [CHR 0x60, CHR 0x60, CHR 0x60] @ ''json'' @ r) = None"
    by (rule matchAt_untagged)
  with Cons.IH [OF tail] show ?case by simp
qed

lemma first_block_trimmed:
  assumes "firstJsonBlock text pre inner post"
  shows "jsonString text = trim inner"
proof -
  from assms have "text": "text = pre @ [CHR 0x60, CHR 0x60, CHR 0x60] @ ''json'' @ inner @ [CHR 0x60, CHR 0x60, CHR 0x60] @ post"
    and tag: "\<not> sublist ([CHR 0x60, CHR 0x60, CHR 0x60] @ ''json'') (pre @ [CHR 0x60, CHR 0x60, CHR 0x60] @ ''jso'')"
    and fence: "\<not> sublist [CHR 0x60, CHR 0x60, CHR 0x60] (inner @ [CHR 0x60, CHR 0x60])"
    by (simp_all add: firstJsonBlock_def)
  from jsonCodeBlockMatch_first_tag [OF matchAt_first_fence [OF fence, of post] tag]
  show ?thesis by (simp add: jsonString_def "text")
qed

section \<open>The tiers of the extraction\<close>

lemma hasJsonBlock_tick: "hasJsonBlock text \<Longrightarrow> CHR 0x60 \<in> set text"
  by (auto simp: hasJsonBlock_def)

lemma hasBracePair_braces: "hasBracePair text \<Longrightarrow> CHR ''{'' \<in> set text \<and> CHR ''}'' \<in> set text"
  by (auto simp: hasBracePair_def)

lemma block_extracted:
  assumes "hasJsonBlock text"
  shows "\<exists>pre w1 w2 post.
           text = pre @ [CHR 0x60, CHR 0x60, CHR 0x60] @ ''json'' @ w1 @ jsonString text @ w2 @
                  [CHR 0x60, CHR 0x60, CHR 0x60] @ post \<and> whiteSpace w1 \<and> whiteSpace w2"
proof -
  from assms obtain g where g: "jsonCodeBlockMatch text = Some g"
    using jsonCodeBlockMatch_None_iff [of "text"] by auto
  then have "jsonString text = g" by (simp add: jsonString_def)
  with jsonCodeBlockMatch_Some [OF g] show ?thesis by simp
qed

text \<open>
  A text that is one JSON block around \<^verbatim>\<open>[1]\<close> has no brace at all, and the extraction
  returns the content of the block, not the trimmed text.
\<close>

theorem fenced_text_without_braces:
  "CHR ''{'' \<notin> set ([CHR 0x60, CHR 0x60, CHR 0x60] @ ''json [1] '' @ [CHR 0x60, CHR 0x60, CHR 0x60])
   \<and> CHR ''}'' \<notin> set ([CHR 0x60, CHR 0x60, CHR 0x60] @ ''json [1] '' @ [CHR 0x60, CHR 0x60, CHR 0x60])
   \<and> jsonString ([CHR 0x60, CHR 0x60, CHR 0x60] @ ''json [1] '' @ [CHR 0x60, CHR 0x60, CHR 0x60]) = ''[1]''
   \<and> trim ([CHR 0x60, CHR 0x60, CHR 0x60] @ ''json [1] '' @ [CHR 0x60, CHR 0x60, CHR 0x60])
       = [CHR 0x60, CHR 0x60, CHR 0x60] @ ''json [1] '' @ [CHR 0x60, CHR 0x60, CHR 0x60]
   \<and> jsonString ([CHR 0x60, CHR 0x60, CHR 0x60] @ ''json [1] '' @ [CHR 0x60, CHR 0x60, CHR 0x60])
       \<noteq> trim ([CHR 0x60, CHR 0x60, CHR 0x60] @ ''json [1] '' @ [CHR 0x60, CHR 0x60, CHR 0x60])"
  by code_simp

text \<open>
  C5, as the code has it. The extraction is a total function from texts to strings,
  in three tiers. A text with a JSON block gives a string that stands in the text
  between an opening tag and a closing fence, white space apart; it is the content of
  the first block, trimmed. A text with no JSON block in which the first opening brace
  comes before the last closing brace gives the part from the one to the other, both
  included. A text with neither a JSON block nor a brace pair gives the trimmed text.
  When the extracted string does not parse, the validation throws, and the response,
  if not empty, is refused with the message of the parse failure.
\<close>

theorem extraction_tiers:
  "(hasJsonBlock text \<longrightarrow>
      (\<exists>pre w1 w2 post.
           text = pre @ [CHR 0x60, CHR 0x60, CHR 0x60] @ ''json'' @ w1 @ jsonString text @ w2 @
                  [CHR 0x60, CHR 0x60, CHR 0x60] @ post \<and> whiteSpace w1 \<and> whiteSpace w2))
   \<and> (firstJsonBlock text pre inner post \<longrightarrow> jsonString text = trim inner)
   \<and> (\<not> hasJsonBlock text \<and> text = a @ ''{'' @ b @ ''}'' @ c \<and>
        CHR ''{'' \<notin> set a \<and> CHR ''}'' \<notin> set c \<longrightarrow> jsonString text = ''{'' @ b @ ''}'')
   \<and> (\<not> hasJsonBlock text \<and> \<not> hasBracePair text \<longrightarrow> jsonString text = trim text)
   \<and> (JSON_parse (jsonString text) = None \<longrightarrow>
        tryBody JSON_parse (jsonString text) = ([], Inl SyntaxError) \<and>
        (text \<noteq> [] \<longrightarrow>
           snd (parseResponse JSON_parse (Some text)) =
             Inl (Error ''Failed to parse AI response. The model did not return valid JSON.'')))"
proof -
  have braces: "jsonString text = ''{'' @ b @ ''}''"
    if "\<not> hasJsonBlock text" "text = a @ ''{'' @ b @ ''}'' @ c" "CHR ''{'' \<notin> set a" "CHR ''}'' \<notin> set c"
    using braces_extracted [of a b c] that by simp
  have unparsed: "tryBody JSON_parse (jsonString text) = ([], Inl SyntaxError) \<and>
        (text \<noteq> [] \<longrightarrow>
           snd (parseResponse JSON_parse (Some text)) =
             Inl (Error ''Failed to parse AI response. The model did not return valid JSON.''))"
    if "JSON_parse (jsonString text) = None"
    using tryBody_unparsed [of JSON_parse "jsonString text", OF that]
      parseResponse_thrown [of "text" JSON_parse "[]" SyntaxError]
    by simp
  from block_extracted [of "text"] first_block_trimmed [of "text" pre inner post] braces
    no_braces_trimmed [of "text"] unparsed
  show ?thesis by blast
qed

theorem extraction_tiers_witness:
  "jsonString (''Here: '' @ [CHR 0x60, CHR 0x60, CHR 0x60] @ ''json'' @ ''  {a: 1} '' @
               [CHR 0x60, CHR 0x60, CHR 0x60] @ '' bye'') = ''{a: 1}''
   \<and> jsonString ''prose {a} tail } x'' = ''{a} tail }''
   \<and> jsonString ''  no braces  '' = ''no braces''
   \<and> snd (parseResponse (\<lambda>s. None) (Some ''  no braces  ''))
       = Inl (Error ''Failed to parse AI response. The model did not return valid JSON.'')"
proof -
  let ?fenced = "''Here: '' @ [CHR 0x60, CHR 0x60, CHR 0x60] @ ''json'' @ ''  {a: 1} '' @
               [CHR 0x60, CHR 0x60, CHR 0x60] @ '' bye''"
  let ?braced = "''prose {a} tail } x''"
  let ?plain = "''  no braces  ''"
  have "\<not> sublist ([CHR 0x60, CHR 0x60, CHR 0x60] @ ''json'') (''Here: '' @ [CHR 0x60, CHR 0x60, CHR 0x60] @ ''jso'')"
    by code_simp
  moreover have "\<not> sublist [CHR 0x60, CHR 0x60, CHR 0x60] (''  {a: 1} '' @ [CHR 0x60, CHR 0x60])"
    by code_simp
  ultimately have block: "firstJsonBlock ?fenced ''Here: '' ''  {a: 1} '' '' bye''"
    unfolding firstJsonBlock_def by blast
  have trimmed: "trim ''  {a: 1} '' = ''{a: 1}''" by code_simp
  from extraction_tiers [of ?fenced "''Here: ''" "''  {a: 1} ''" "'' bye''" "[]" "[]" "[]" "\<lambda>s. None"] block
  have "jsonString ?fenced = trim ''  {a: 1} ''" by blast
  with trimmed have first: "jsonString ?fenced = ''{a: 1}''" by simp
  have noBlock: "\<not> hasJsonBlock ?braced"
    using hasJsonBlock_tick [of ?braced] by auto
  have split: "?braced = ''prose '' @ ''{'' @ ''a} tail '' @ ''}'' @ '' x''"
    "CHR ''{'' \<notin> set ''prose ''" "CHR ''}'' \<notin> set '' x''"
    by simp_all
  from extraction_tiers [of ?braced "[]" "[]" "[]" "''prose ''" "''a} tail ''" "'' x''" "\<lambda>s. None"] noBlock split
  have "jsonString ?braced = ''{'' @ ''a} tail '' @ ''}''" by blast
  then have second: "jsonString ?braced = ''{a} tail }''" by simp
  have plain: "\<not> hasJsonBlock ?plain" "\<not> hasBracePair ?plain"
    using hasJsonBlock_tick [of ?plain] hasBracePair_braces [of ?plain] by auto
  have trimmedPlain: "trim ?plain = ''no braces''" by code_simp
  note tiers = extraction_tiers [of ?plain "[]" "[]" "[]" "[]" "[]" "[]" "\<lambda>s. None"]
  from tiers plain have "jsonString ?plain = trim ?plain" by blast
  with trimmedPlain have third: "jsonString ?plain = ''no braces''" by simp
  have "?plain \<noteq> []" by simp
  with tiers have fourth: "snd (parseResponse (\<lambda>s. None) (Some ?plain))
       = Inl (Error ''Failed to parse AI response. The model did not return valid JSON.'')"
    by blast
  from first second third fourth show ?thesis by blast
qed

end
